theory Spec2Isabelle
  imports Main
begin

section \<open>Data model of the shell (cush.c)\<close>

text \<open>
  The job-control core of cush.c is embedded as state-passing functions over an explicit
  store.  Job structures live on a heap indexed by addresses, because the linked list
  \<open>job_list\<close> and the array \<open>jid2job\<close> both hold pointers to the same structures and
  the code writes through either of them.  Addresses are never reused, so a pointer to a
  freed structure is recognisable: dereferencing it is the halt \<open>Fault\<close>.
  The signal mask is not part of the state: the assertions on it are left out, and the
  handler for \<open>SIGCHLD\<close> runs only while the shell waits at the prompt, where the source
  has the signal unblocked.
\<close>

datatype job_status = FOREGROUND | BACKGROUND | STOPPED | NEEDSTERMINAL | TERMINATED

datatype proc_status = PSTAT_RUNNING | PSTAT_STOPPED

type_synonym addr = nat

text \<open>The contents of a \<open>struct termios\<close> are opaque to the shell.\<close>

type_synonym termios = nat

record ast_command =
  argv :: "string list"
  dup_stderr_to_stdout :: bool

record ast_pipeline =
  commands :: "ast_command list"
  iored_input :: "string option"
  iored_output :: "string option"
  append_to_output :: bool
  bg_job :: bool

record process =
  pid :: int
  pstatus :: proc_status
  command :: ast_command

text \<open>
  \<open>procs\<close> is the heap array of the job; its length is the number of slots that were
  allocated.  Only the first \<open>num_processes_alive\<close> slots are ever read.
\<close>

record job =
  pipe :: ast_pipeline
  jid :: int
  status :: job_status
  num_processes_alive :: int
  saved_tty_state :: termios
  pgid :: int
  procs :: "process list"

text \<open>
  The decoded view of a wait status: which of the macros \<open>WIFEXITED\<close>, \<open>WIFSIGNALED\<close>,
  \<open>WIFSTOPPED\<close> holds, with the value \<open>WEXITSTATUS\<close>, \<open>WTERMSIG\<close> or \<open>WSTOPSIG\<close>
  extracts.  \<open>WContinued\<close> stands for a status on which none of the three holds.
\<close>

datatype wstatus = WExited int | WSignaled int | WStopped int | WContinued

text \<open>Everything the shell does to the outside world is appended to a trace.\<close>

datatype event =
    Kill int int
  | Stdout string
  | Stderr string
  | Perror string
  | Strsignal int
  | TermSave
  | TermSample
  | TermGive int
  | TermGiveBack
  | Chdir string

record shell =
  heap :: "addr \<Rightarrow> job option"
  next_free :: addr
  job_list :: "addr list"
  jid2job :: "int \<Rightarrow> addr option"
  shell_pgrp :: int
  term_owner :: int
  tty :: termios
  shell_tty :: termios
  pending :: "(int \<times> wstatus) list"
  trace :: "event list"
  history :: "string list"
  home :: "string option"
  dirs :: "string \<Rightarrow> bool"

text \<open>
  \<open>pending\<close> is the list of the values the coming calls of \<open>waitpid\<close> return, in order:
  the pid (or 0, or -1) and the status.  When it is empty no child changes state any more:
  a blocking \<open>waitpid\<close> never returns, and one with \<open>WNOHANG\<close> reports nothing.
  \<open>history\<close> is the list kept by the history library, \<open>home\<close> is what
  \<open>getenv("HOME")\<close> returns (\<open>None\<close> for a null pointer), and \<open>dirs\<close> tells for which
  paths \<open>chdir\<close> succeeds.
\<close>

datatype halt = Exit int | Abort | Fatal | Blocked | Fault

datatype 'a outcome = Ret 'a shell | Halt halt shell

definition emit :: "event \<Rightarrow> shell \<Rightarrow> shell" where
  "emit e st = st\<lparr>trace := trace st @ [e]\<rparr>"

definition store :: "addr \<Rightarrow> job \<Rightarrow> shell \<Rightarrow> shell" where
  "store a j st = st\<lparr>heap := (heap st)(a \<mapsto> j)\<rparr>"

definition nl :: string where "nl = [CHR 0x0A]"
definition tab :: string where "tab = [CHR 0x09]"

definition SIGKILL :: int where "SIGKILL = 9"
definition SIGCONT :: int where "SIGCONT = 18"
definition SIGSTOP :: int where "SIGSTOP = 19"
definition SIGTTIN :: int where "SIGTTIN = 21"
definition SIGTTOU :: int where "SIGTTOU = 22"
definition SIGCHLD :: int where "SIGCHLD = 17"
definition ENOENT :: int where "ENOENT = 2"

section \<open>Job registry\<close>

definition MAXJOBS :: int where
  "MAXJOBS = push_bit 16 1"

definition get_job_from_jid :: "int \<Rightarrow> shell \<Rightarrow> addr option" where
  "get_job_from_jid i st =
     (if i > 0 \<and> i < MAXJOBS \<and> jid2job st i \<noteq> None then jid2job st i else None)"

text \<open>The search loop of \<open>add_job\<close>: the first index from \<open>i\<close> on, below \<open>MAXJOBS\<close>, that is free.\<close>

function first_free_jid :: "(int \<Rightarrow> addr option) \<Rightarrow> int \<Rightarrow> int option" where
  "first_free_jid tbl i =
     (if i < MAXJOBS then (if tbl i = None then Some i else first_free_jid tbl (i + 1))
      else None)"
  by pat_completeness auto
termination
  by (relation "measure (\<lambda>(tbl, i). nat (MAXJOBS - i))") auto

declare first_free_jid.simps [simp del]

text \<open>
  \<open>malloc\<close> leaves the fields that \<open>add_job\<close> does not set undetermined; the caller sets
  them before they are read.  The model fills them with fixed values.
\<close>

definition fresh_job :: "ast_pipeline \<Rightarrow> job" where
  "fresh_job p = \<lparr>pipe = p, jid = 0, status = TERMINATED, num_processes_alive = 0,
                  saved_tty_state = 0, pgid = 0, procs = []\<rparr>"

definition add_job :: "ast_pipeline \<Rightarrow> shell \<Rightarrow> addr outcome" where
  "add_job p st =
     (let a = next_free st;
          st1 = st\<lparr>heap := (heap st)(a \<mapsto> fresh_job p), next_free := Suc a,
                   job_list := job_list st @ [a]\<rparr>
      in case first_free_jid (jid2job st1) 1 of
           Some i \<Rightarrow>
             Ret a (st1\<lparr>jid2job := (jid2job st1)(i \<mapsto> a),
                        heap := (heap st1)(a \<mapsto> (fresh_job p)\<lparr>jid := i\<rparr>)\<rparr>)
         | None \<Rightarrow> Halt Abort (emit (Stderr (''Maximum number of jobs exceeded'' @ nl)) st1))"

text \<open>
  \<open>delete_job\<close>: the assertion, the write through \<open>jid2job[jid]\<close>, the clearing of the
  slot, and the release of the structure.
\<close>

definition delete_job :: "addr \<Rightarrow> shell \<Rightarrow> unit outcome" where
  "delete_job a st =
     (case heap st a of
        None \<Rightarrow> Halt Fault st
      | Some j \<Rightarrow>
          if jid j = - 1 then Halt Abort st
          else if \<not> (0 \<le> jid j \<and> jid j < MAXJOBS) then Halt Fault st
          else (case jid2job st (jid j) of
                  None \<Rightarrow> Halt Fault st
                | Some b \<Rightarrow>
                    (case heap st b of
                       None \<Rightarrow> Halt Fault st
                     | Some jb \<Rightarrow>
                         Ret () (st\<lparr>heap := ((heap st)(b \<mapsto> jb\<lparr>jid := - 1\<rparr>))(a := None),
                                    jid2job := (jid2job st)(jid j := None)\<rparr>))))"

text \<open>\<open>list_remove\<close> on the link element of a job.\<close>

definition list_remove :: "addr \<Rightarrow> shell \<Rightarrow> unit outcome" where
  "list_remove a st =
     (if a \<in> set (job_list st) then Ret () (st\<lparr>job_list := remove1 a (job_list st)\<rparr>)
      else Halt Fault st)"


section \<open>Terminal state management\<close>

text \<open>
  Modelled from the spec: the functions of termstate_management.c, which is not among the
  sources.  \<open>save\<close> captures the current terminal mode into the given slot; \<open>give_to\<close>
  restores the given saved mode and makes the given process group the owner of the terminal;
  \<open>give_back_to_shell\<close> restores the shell's own saved mode and makes the shell's group the
  owner; \<open>sample\<close> captures the current mode as the shell's own.  Each call is also
  recorded in the trace.
\<close>

definition termstate_save :: "job \<Rightarrow> shell \<Rightarrow> job \<times> shell" where
  "termstate_save j st = (j\<lparr>saved_tty_state := tty st\<rparr>, emit TermSave st)"

definition termstate_give_terminal_to :: "termios \<Rightarrow> int \<Rightarrow> shell \<Rightarrow> shell" where
  "termstate_give_terminal_to saved pgrp st =
     emit (TermGive pgrp) (st\<lparr>tty := saved, term_owner := pgrp\<rparr>)"

definition termstate_give_terminal_back_to_shell :: "shell \<Rightarrow> shell" where
  "termstate_give_terminal_back_to_shell st =
     emit TermGiveBack (st\<lparr>tty := shell_tty st, term_owner := shell_pgrp st\<rparr>)"

definition termstate_sample :: "shell \<Rightarrow> shell" where
  "termstate_sample st = emit TermSample (st\<lparr>shell_tty := tty st\<rparr>)"

definition termstate_get_current_terminal_owner :: "shell \<Rightarrow> int" where
  "termstate_get_current_terminal_owner st = term_owner st"

section \<open>Printing\<close>

definition digit_char :: "nat \<Rightarrow> char" where
  "digit_char n = ''0123456789'' ! n"

fun show_nat :: "nat \<Rightarrow> string" where
  "show_nat n = (if n < 10 then [digit_char n] else show_nat (n div 10) @ [digit_char (n mod 10)])"

declare show_nat.simps [simp del]

definition show_int :: "int \<Rightarrow> string" where
  "show_int i = (if i < 0 then ''-'' @ show_nat (nat (- i)) else show_nat (nat i))"

definition get_status :: "job_status \<Rightarrow> string" where
  "get_status s =
     (case s of FOREGROUND \<Rightarrow> ''Foreground'' | BACKGROUND \<Rightarrow> ''Running''
      | STOPPED \<Rightarrow> ''Stopped'' | NEEDSTERMINAL \<Rightarrow> ''Stopped (tty)'' | TERMINATED \<Rightarrow> ''Unknown'')"

text \<open>The words of one command: the first as it is, each further one after a blank.\<close>

fun cmd_words :: "string list \<Rightarrow> string" where
  "cmd_words [] = []"
| "cmd_words (w # ws) = w @ concat (map (\<lambda>x. '' '' @ x) ws)"

fun cmdline_from :: "bool \<Rightarrow> ast_command list \<Rightarrow> string" where
  "cmdline_from first [] = []"
| "cmdline_from first (c # cs) =
     (if first then [] else ''| '') @ cmd_words (argv c) @ cmdline_from False cs"

definition print_cmdline :: "ast_pipeline \<Rightarrow> string" where
  "print_cmdline p = cmdline_from True (commands p)"

definition print_job :: "job \<Rightarrow> shell \<Rightarrow> shell" where
  "print_job j st =
     emit (Stdout (''['' @ show_int (jid j) @ '']'' @ tab @ get_status (status j) @ tab @ tab
                   @ ''('' @ print_cmdline (pipe j) @ '')'' @ nl)) st"

section \<open>Status reaper\<close>

definition WIFEXITED :: "wstatus \<Rightarrow> bool" where
  "WIFEXITED ws = (case ws of WExited c \<Rightarrow> True | _ \<Rightarrow> False)"

definition WEXITSTATUS :: "wstatus \<Rightarrow> int" where
  "WEXITSTATUS ws = (case ws of WExited c \<Rightarrow> c | _ \<Rightarrow> 0)"

definition WIFSIGNALED :: "wstatus \<Rightarrow> bool" where
  "WIFSIGNALED ws = (case ws of WSignaled s \<Rightarrow> True | _ \<Rightarrow> False)"

definition WTERMSIG :: "wstatus \<Rightarrow> int" where
  "WTERMSIG ws = (case ws of WSignaled s \<Rightarrow> s | _ \<Rightarrow> 0)"

definition WIFSTOPPED :: "wstatus \<Rightarrow> bool" where
  "WIFSTOPPED ws = (case ws of WStopped s \<Rightarrow> True | _ \<Rightarrow> False)"

definition WSTOPSIG :: "wstatus \<Rightarrow> int" where
  "WSTOPSIG ws = (case ws of WStopped s \<Rightarrow> s | _ \<Rightarrow> 0)"

text \<open>The live-process sequence of a job: the first \<open>num_processes_alive\<close> slots of its array.\<close>

definition live_procs :: "job \<Rightarrow> process list" where
  "live_procs j = take (nat (num_processes_alive j)) (procs j)"

fun procs_all_stopped :: "process list \<Rightarrow> bool" where
  "procs_all_stopped [] = True"
| "procs_all_stopped (p # ps) = (if pstatus p = PSTAT_RUNNING then False else procs_all_stopped ps)"

definition all_procs_stopped :: "job \<Rightarrow> bool" where
  "all_procs_stopped j = procs_all_stopped (live_procs j)"

fun scan_procs :: "int \<Rightarrow> process list \<Rightarrow> nat \<Rightarrow> nat option" where
  "scan_procs p [] i = None"
| "scan_procs p (x # xs) i = (if pid x = p then Some i else scan_procs p xs (Suc i))"

text \<open>
  \<open>find_pid\<close> returns the job and, for the pointer into its array, the index of the process.
\<close>

fun find_pid_from :: "int \<Rightarrow> addr list \<Rightarrow> shell \<Rightarrow> (addr \<times> nat) option outcome" where
  "find_pid_from p [] st = Ret None st"
| "find_pid_from p (a # as) st =
     (case heap st a of
        None \<Rightarrow> Halt Fault st
      | Some j \<Rightarrow>
          (case scan_procs p (live_procs j) 0 of
             Some i \<Rightarrow> Ret (Some (a, i)) st
           | None \<Rightarrow> find_pid_from p as st))"

definition find_pid :: "int \<Rightarrow> shell \<Rightarrow> (addr \<times> nat) option outcome" where
  "find_pid p st = find_pid_from p (job_list st) st"

text \<open>The three statements that release a job: \<open>free(job->procs)\<close>, \<open>list_remove\<close>, \<open>delete_job\<close>.\<close>

definition discard_job :: "addr \<Rightarrow> shell \<Rightarrow> unit outcome" where
  "discard_job a st =
     (case heap st a of
        None \<Rightarrow> Halt Fault st
      | Some j \<Rightarrow>
          (case list_remove a st of
             Halt h s \<Rightarrow> Halt h s
           | Ret u st1 \<Rightarrow> delete_job a st1))"

definition handle_stopped_child :: "int \<Rightarrow> wstatus \<Rightarrow> addr \<Rightarrow> nat \<Rightarrow> shell \<Rightarrow> unit outcome" where
  "handle_stopped_child p ws a i st =
     (case heap st a of
        None \<Rightarrow> Halt Fault st
      | Some j \<Rightarrow>
          if (WSTOPSIG ws = SIGTTOU \<or> WSTOPSIG ws = SIGTTIN) \<and> status j = FOREGROUND then
            Ret () (emit (Kill (- 1 * pgid j) SIGCONT)
                      (termstate_give_terminal_to (saved_tty_state j) (pgid j) st))
          else
            let j1 = j\<lparr>procs := (procs j)[i := (procs j ! i)\<lparr>pstatus := PSTAT_STOPPED\<rparr>]\<rparr>
            in if all_procs_stopped j1 then
                 let j2 = j1\<lparr>status := (if WSTOPSIG ws = SIGTTOU \<or> WSTOPSIG ws = SIGTTIN
                                          then NEEDSTERMINAL else STOPPED)\<rparr>;
                     (j3, st1) = termstate_save j2 st
                 in Ret () (print_job j3 (store a j3 st1))
               else Ret () (store a j1 st))"

text \<open>
  \<open>memmove(proc, proc + 1, n)\<close> inside the array: the \<open>n\<close> slots after index \<open>i\<close> move down by
  one; the slots from \<open>i + n\<close> on keep their contents.
\<close>

definition memmove_down :: "process list \<Rightarrow> nat \<Rightarrow> nat \<Rightarrow> process list" where
  "memmove_down ps i n = take i ps @ take n (drop (Suc i) ps) @ drop (i + n) ps"

definition handle_terminated_child :: "int \<Rightarrow> wstatus \<Rightarrow> addr \<Rightarrow> nat \<Rightarrow> shell \<Rightarrow> unit outcome" where
  "handle_terminated_child p ws a i st =
     (case heap st a of
        None \<Rightarrow> Halt Fault st
      | Some j \<Rightarrow>
          let st1 = (if WIFSIGNALED ws then emit (Strsignal (WTERMSIG ws)) st else st)
          in if num_processes_alive j - int i - 1 < 0 then Halt Fault st1
             else
               let j1 = j\<lparr>procs := memmove_down (procs j) i (nat (num_processes_alive j - int i - 1)),
                          num_processes_alive := num_processes_alive j - 1\<rparr>;
                   st2 = store a j1 st1
               in if num_processes_alive j1 = 0 then
                    (if status j1 = FOREGROUND then
                       let st3 = (if WIFEXITED ws \<and> WEXITSTATUS ws = 0 then termstate_sample st2
                                  else st2)
                       in Ret () (store a (j1\<lparr>status := TERMINATED\<rparr>) st3)
                     else discard_job a st2)
                  else Ret () st2)"

definition handle_child_status :: "int \<Rightarrow> wstatus \<Rightarrow> shell \<Rightarrow> unit outcome" where
  "handle_child_status p ws st =
     (case find_pid p st of
        Halt h s \<Rightarrow> Halt h s
      | Ret None s \<Rightarrow>
          Halt (Exit 1)
            (emit (Stderr (''Received child status for unrecognized pid '' @ show_int p @ nl)) st)
      | Ret (Some (a, i)) s \<Rightarrow>
          if WIFSTOPPED ws then handle_stopped_child p ws a i st
          else if WIFEXITED ws \<or> WIFSIGNALED ws then handle_terminated_child p ws a i st
          else Ret () st)"


text \<open>
  \<open>sigchld_handler\<close>: \<open>waitpid\<close> with \<open>WNOHANG\<close> takes the next pending value; the loop goes
  on while that value is positive.
\<close>

function sigchld_loop :: "shell \<Rightarrow> unit outcome" where
  "sigchld_loop st =
     (case pending st of
        [] \<Rightarrow> Ret () st
      | (child, ws) # rest \<Rightarrow>
          if child > 0 then
            (case handle_child_status child ws (st\<lparr>pending := rest\<rparr>) of
               Ret u st1 \<Rightarrow> sigchld_loop st1
             | Halt h s \<Rightarrow> Halt h s)
          else Ret () (st\<lparr>pending := rest\<rparr>))"
  by pat_completeness auto
termination
  apply (relation "measure (\<lambda>st. length (pending st))")
   apply simp
  apply (auto simp: handle_child_status_def handle_stopped_child_def
      handle_terminated_child_def discard_job_def list_remove_def delete_job_def Let_def
      emit_def store_def termstate_save_def termstate_give_terminal_to_def
      termstate_sample_def print_job_def
      split: option.splits if_splits outcome.splits prod.splits)
  done

declare sigchld_loop.simps [simp del]

definition sigchld_handler :: "int \<Rightarrow> shell \<Rightarrow> unit outcome" where
  "sigchld_handler sig st = (if sig \<noteq> SIGCHLD then Halt Abort st else sigchld_loop st)"

text \<open>
  \<open>wait_for_job\<close>: the blocking \<open>waitpid\<close> takes the next pending value, and never returns
  when there is none.  \<open>utils_fatal_error\<close> is the halt \<open>Fatal\<close>.
\<close>

function wait_for_job :: "addr \<Rightarrow> shell \<Rightarrow> unit outcome" where
  "wait_for_job a st =
     (case heap st a of
        None \<Rightarrow> Halt Fault st
      | Some j \<Rightarrow>
          if status j = FOREGROUND \<and> num_processes_alive j > 0 then
            (case pending st of
               [] \<Rightarrow> Halt Blocked st
             | (child, ws) # rest \<Rightarrow>
                 if child \<noteq> - 1 then
                   (case handle_child_status child ws (st\<lparr>pending := rest\<rparr>) of
                      Ret u st1 \<Rightarrow> wait_for_job a st1
                    | Halt h s \<Rightarrow> Halt h s)
                 else Halt Fatal
                        (emit (Stderr ''waitpid failed, see code for explanation'')
                           (st\<lparr>pending := rest\<rparr>)))
          else Ret () st)"
  by pat_completeness auto
termination
  apply (relation "measure (\<lambda>(a, st). length (pending st))")
   apply simp
  apply (auto simp: handle_child_status_def handle_stopped_child_def
      handle_terminated_child_def discard_job_def list_remove_def delete_job_def Let_def
      emit_def store_def termstate_save_def termstate_give_terminal_to_def
      termstate_sample_def print_job_def
      split: option.splits if_splits outcome.splits prod.splits)
  done

declare wait_for_job.simps [simp del]


section \<open>Job control operations\<close>

text \<open>
  The C library's \<open>atoi\<close> is \<open>(int) strtol(s, NULL, 10)\<close>: leading white space, an
  optional sign, then decimal digits up to the first other character.  A value beyond the
  range of \<open>long\<close> (64 bits) is replaced by the nearest bound, and the conversion to \<open>int\<close>
  (32 bits) keeps the low 32 bits.
\<close>

definition is_space :: "char \<Rightarrow> bool" where
  "is_space c = (c = CHR '' '' \<or> ((9::nat) \<le> of_char c \<and> (of_char c :: nat) \<le> 13))"

definition is_digit :: "char \<Rightarrow> bool" where
  "is_digit c = ((48::nat) \<le> of_char c \<and> (of_char c :: nat) \<le> 57)"

fun atoi_digits :: "int \<Rightarrow> string \<Rightarrow> int" where
  "atoi_digits acc [] = acc"
| "atoi_digits acc (c # cs) =
     (if is_digit c then atoi_digits (acc * 10 + (of_char c - 48)) cs else acc)"

definition LONG_MAX :: int where "LONG_MAX = 2 ^ 63 - 1"
definition LONG_MIN :: int where "LONG_MIN = - (2 ^ 63)"

definition strtol :: "string \<Rightarrow> int" where
  "strtol s =
     (let v = (case dropWhile is_space s of
                 [] \<Rightarrow> 0
               | c # cs \<Rightarrow>
                   if c = CHR ''-'' then - atoi_digits 0 cs
                   else if c = CHR ''+'' then atoi_digits 0 cs
                   else atoi_digits 0 (c # cs))
      in if LONG_MAX < v then LONG_MAX else if v < LONG_MIN then LONG_MIN else v)"

definition long_to_int :: "int \<Rightarrow> int" where
  "long_to_int v = (v + 2 ^ 31) mod 2 ^ 32 - 2 ^ 31"

definition atoi :: "string \<Rightarrow> int" where
  "atoi s = long_to_int (strtol s)"

text \<open>
  \<open>exit_builtin\<close> walks the job list.  A job that a wait has removed from the list in the
  meantime is no longer reached by \<open>list_next\<close>; the job being waited for is never removed,
  since the reaper keeps a foreground job in the list.  The function ends in \<open>exit(0)\<close> and
  so never returns a value.
\<close>

fun exit_loop :: "addr list \<Rightarrow> shell \<Rightarrow> 'a outcome" where
  "exit_loop [] st = Halt (Exit 0) st"
| "exit_loop (a # rest) st =
     (if a \<notin> set (job_list st) then exit_loop rest st
      else
        (case heap st a of
           None \<Rightarrow> Halt Fault st
         | Some j \<Rightarrow>
             (case wait_for_job a
                     (emit (Kill (- 1 * pgid j) SIGKILL) (store a (j\<lparr>status := FOREGROUND\<rparr>) st)) of
                Ret u st1 \<Rightarrow> exit_loop rest st1
              | Halt h s \<Rightarrow> Halt h s)))"

definition exit_builtin :: "shell \<Rightarrow> 'a outcome" where
  "exit_builtin st = exit_loop (job_list st) st"

fun jobs_loop :: "addr list \<Rightarrow> shell \<Rightarrow> unit outcome" where
  "jobs_loop [] st = Ret () st"
| "jobs_loop (a # rest) st =
     (case heap st a of
        None \<Rightarrow> Halt Fault st
      | Some j \<Rightarrow> jobs_loop rest (print_job j st))"

definition jobs_builtin :: "shell \<Rightarrow> unit outcome" where
  "jobs_builtin st = jobs_loop (job_list st) st"

definition no_such_job :: "string \<Rightarrow> string \<Rightarrow> shell \<Rightarrow> shell" where
  "no_such_job a0 a1 st = emit (Stdout (a0 @ '' '' @ a1 @ '': No such job'' @ nl)) st"

text \<open>
  In the four builtins below a job id below 1 prints the message and goes on to the lookup,
  which prints it again.  A missing \<open>argv[1]\<close> is a null pointer passed to \<open>atoi\<close>.
\<close>

definition kill_builtin :: "string list \<Rightarrow> shell \<Rightarrow> unit outcome" where
  "kill_builtin av st =
     (case av of
        a0 # a1 # others \<Rightarrow>
          let n = atoi a1;
              st1 = (if n < 1 then no_such_job a0 a1 st else st)
          in (case get_job_from_jid n st1 of
                Some a \<Rightarrow>
                  (case heap st1 a of
                     None \<Rightarrow> Halt Fault st1
                   | Some j \<Rightarrow>
                       (case wait_for_job a
                               (emit (Kill (- 1 * pgid j) SIGKILL)
                                  (store a (j\<lparr>status := FOREGROUND\<rparr>) st1)) of
                          Ret u st2 \<Rightarrow> discard_job a st2
                        | Halt h s \<Rightarrow> Halt h s))
              | None \<Rightarrow> Ret () (no_such_job a0 a1 st1))
      | _ \<Rightarrow> Halt Fault st)"

definition bg_builtin :: "string list \<Rightarrow> shell \<Rightarrow> unit outcome" where
  "bg_builtin av st =
     (case av of
        a0 # a1 # others \<Rightarrow>
          let n = atoi a1;
              st1 = (if n < 1 then no_such_job a0 a1 st else st)
          in (case get_job_from_jid n st1 of
                Some a \<Rightarrow>
                  (case heap st1 a of
                     None \<Rightarrow> Halt Fault st1
                   | Some j \<Rightarrow>
                       Ret () (emit (Stdout (''['' @ show_int n @ ''] '' @ show_int (pgid j) @ nl))
                                 (emit (Kill (- 1 * pgid j) SIGCONT)
                                    (store a (j\<lparr>status := BACKGROUND\<rparr>) st1))))
              | None \<Rightarrow> Ret () (no_such_job a0 a1 st1))
      | _ \<Rightarrow> Halt Fault st)"

definition fg_builtin :: "string list \<Rightarrow> shell \<Rightarrow> unit outcome" where
  "fg_builtin av st =
     (case av of
        a0 # a1 # others \<Rightarrow>
          let n = atoi a1;
              st1 = (if n < 1 then no_such_job a0 a1 st else st)
          in (case get_job_from_jid n st1 of
                Some a \<Rightarrow>
                  (case heap st1 a of
                     None \<Rightarrow> Halt Fault st1
                   | Some j \<Rightarrow>
                       (case wait_for_job a
                               (emit (Stdout (print_cmdline (pipe j) @ nl))
                                  (emit (Kill (- 1 * pgid j) SIGCONT)
                                     (termstate_give_terminal_to (saved_tty_state j) (pgid j)
                                        (store a (j\<lparr>status := FOREGROUND\<rparr>) st1)))) of
                          Ret u st2 \<Rightarrow>
                            (case heap st2 a of
                               None \<Rightarrow> Halt Fault st2
                             | Some j2 \<Rightarrow>
                                 if status j2 = TERMINATED then discard_job a st2 else Ret () st2)
                        | Halt h s \<Rightarrow> Halt h s))
              | None \<Rightarrow> Ret () (no_such_job a0 a1 st1))
      | _ \<Rightarrow> Halt Fault st)"

definition stop_builtin :: "string list \<Rightarrow> shell \<Rightarrow> unit outcome" where
  "stop_builtin av st =
     (case av of
        a0 # a1 # others \<Rightarrow>
          let n = atoi a1;
              st1 = (if n < 1 then no_such_job a0 a1 st else st)
          in (case get_job_from_jid n st1 of
                Some a \<Rightarrow>
                  (case heap st1 a of
                     None \<Rightarrow> Halt Fault st1
                   | Some j \<Rightarrow> Ret () (emit (Kill (- 1 * pgid j) SIGSTOP) st1))
              | None \<Rightarrow> Ret () (no_such_job a0 a1 st1))
      | _ \<Rightarrow> Halt Fault st)"


text \<open>\<open>history_builtin\<close> prints the entries of the history list, numbered from 1.\<close>

fun history_lines :: "nat \<Rightarrow> string list \<Rightarrow> shell \<Rightarrow> shell" where
  "history_lines i [] st = st"
| "history_lines i (l # ls) st =
     history_lines (Suc i) ls (emit (Stdout (show_int (int i) @ '' '' @ l @ nl)) st)"

definition history_builtin :: "string list \<Rightarrow> shell \<Rightarrow> unit outcome" where
  "history_builtin av st = Ret () (history_lines 1 (history st) st)"

text \<open>
  \<open>cd_builtin\<close> first stores \<open>getenv("HOME")\<close> into \<open>argv[1]\<close> when that is a null pointer
  or the empty string.  \<open>cd_argv\<close> is the word list of the command after that store: a
  null pointer stored at index 1 ends the list there.  When the store overwrites the null
  pointer that ended the array, the list is taken to end after the new word: what lies
  behind the array is not known from the sources.
\<close>

definition cd_argv :: "string option \<Rightarrow> string list \<Rightarrow> string list" where
  "cd_argv h av =
     (case av of
        [] \<Rightarrow> []
      | a0 # rest \<Rightarrow>
          (case rest of
             [] \<Rightarrow> (case h of None \<Rightarrow> [a0] | Some d \<Rightarrow> [a0, d])
           | a1 # others \<Rightarrow>
               if a1 = [] then (case h of None \<Rightarrow> [a0] | Some d \<Rightarrow> a0 # d # others)
               else av))"

text \<open>
  Then it calls \<open>chdir\<close> on \<open>argv[1]\<close> and reports a failure with \<open>perror\<close>; \<open>chdir\<close> on a
  null pointer fails.
\<close>

definition cd_builtin :: "string list \<Rightarrow> shell \<Rightarrow> unit outcome" where
  "cd_builtin av st =
     (case cd_argv (home st) av of
        a0 # d # others \<Rightarrow>
          if dirs st d then Ret () (emit (Chdir d) st) else Ret () (emit (Perror ''cd'') st)
      | _ \<Rightarrow> Ret () (emit (Perror ''cd'') st))"

text \<open>
  The array that \<open>cd_builtin\<close> writes belongs to the command, which is part of the pipeline
  that the loop walks and that the job built from it points to.  Pipelines are held by
  value here, so the store is repeated on both: \<open>cd_written\<close> is the pipeline after the
  command at index \<open>i\<close> has run, and \<open>cd_written_job\<close> does the same to the copy in the
  job.
\<close>

definition cd_written :: "string option \<Rightarrow> nat \<Rightarrow> ast_command \<Rightarrow> ast_pipeline \<Rightarrow> ast_pipeline" where
  "cd_written h i c p =
     (if take 1 (argv c) = [''cd''] then
        p\<lparr>commands := (commands p)[i := c\<lparr>argv := cd_argv h (argv c)\<rparr>]\<rparr>
      else p)"

definition cd_written_job ::
  "string option \<Rightarrow> nat \<Rightarrow> ast_command \<Rightarrow> addr option \<Rightarrow> shell \<Rightarrow> shell" where
  "cd_written_job h i c job st =
     (if take 1 (argv c) = [''cd''] then
        (case job of
           None \<Rightarrow> st
         | Some a \<Rightarrow>
             (case heap st a of
                None \<Rightarrow> st
              | Some j \<Rightarrow> store a (j\<lparr>pipe := cd_written h i c (pipe j)\<rparr>) st))
      else st)"

section \<open>The read/eval loop\<close>

text \<open>
  What the kernel answers to the calls made for one command of a pipeline: the return
  value of \<open>pipe2\<close>, the return value of \<open>posix_spawnp\<close> and the pid it stores.  The
  descriptors themselves, and the file actions built from them, only matter inside the
  child processes and are left out, as is the storage of the parsed command line.
\<close>

record sys_answers =
  pipe2_rc :: int
  spawn_rc :: int
  spawn_pid :: int

type_synonym pipeline_run = "ast_pipeline \<times> (nat \<Rightarrow> sys_answers)"

definition keep :: "'b \<Rightarrow> 'a outcome \<Rightarrow> 'b outcome" where
  "keep v r = (case r of Ret u s \<Rightarrow> Ret v s | Halt h s \<Rightarrow> Halt h s)"

definition junk_process :: process where
  "junk_process = \<lparr>pid = 0, pstatus = PSTAT_RUNNING,
                    command = \<lparr>argv = [], dup_stderr_to_stdout = False\<rparr>\<rparr>"

text \<open>
  The block that creates the job structure at the first successful spawn of a pipeline.
  The array gets one slot per command of the pipeline (the source asks for at least that
  much memory).
\<close>

definition create_job :: "ast_pipeline \<Rightarrow> int \<Rightarrow> shell \<Rightarrow> addr outcome" where
  "create_job p pgrp st =
     (case add_job p st of
        Halt h s \<Rightarrow> Halt h s
      | Ret a st1 \<Rightarrow>
          (case heap st1 a of
             None \<Rightarrow> Halt Fault st1
           | Some j \<Rightarrow>
               let (j1, st2) =
                     termstate_save
                       (j\<lparr>pgid := pgrp,
                          procs := replicate (length (commands p)) junk_process,
                          status := (if bg_job p then BACKGROUND else FOREGROUND)\<rparr>) st1
               in Ret a (store a j1 st2)))"

text \<open>
  Modelled from the spec: \<open>posix_spawnattr_tcsetpgrp_np\<close> of ../posix_spawn, which is not
  among the sources.  For a pipeline that is not a background job the spawn installs the
  process group of the new process as the owner of the terminal as part of process
  creation.
\<close>

definition spawn_sets_terminal :: "ast_pipeline \<Rightarrow> int \<Rightarrow> shell \<Rightarrow> shell" where
  "spawn_sets_terminal p g st = (if \<not> bg_job p then st\<lparr>term_owner := g\<rparr> else st)"

text \<open>
  The branch of the loop body that runs an external program.  With
  \<open>POSIX_SPAWN_SETPGROUP\<close> and group 0 the new process leads a new group, whose id is its
  pid.
\<close>

definition spawn_command ::
  "ast_pipeline \<Rightarrow> sys_answers \<Rightarrow> ast_command \<Rightarrow> string \<Rightarrow> addr option \<Rightarrow> int \<Rightarrow> shell
     \<Rightarrow> (addr option \<times> int) outcome" where
  "spawn_command p ans c a0 job pgrp st =
     (if spawn_rc ans = ENOENT then
        Ret (job, pgrp) (emit (Stdout (a0 @ '': No such file or directory'' @ nl)) st)
      else if spawn_rc ans \<noteq> 0 then
        exit_builtin (emit (Stderr (''posix_spawnp error: '' @ show_int (spawn_rc ans) @ nl)) st)
      else
        let pgrp1 = (if pgrp = 0 then spawn_pid ans else pgrp);
            st0 = spawn_sets_terminal p pgrp1 st
        in (case (case job of None \<Rightarrow> create_job p pgrp1 st0 | Some a \<Rightarrow> Ret a st0) of
              Halt h s \<Rightarrow> Halt h s
            | Ret a st1 \<Rightarrow>
                (case heap st1 a of
                   None \<Rightarrow> Halt Fault st1
                 | Some j \<Rightarrow>
                     if 0 \<le> num_processes_alive j
                        \<and> num_processes_alive j < int (length (procs j)) then
                       Ret (Some a, pgrp1)
                         (store a
                            (j\<lparr>procs := (procs j)[nat (num_processes_alive j) :=
                                          \<lparr>pid = spawn_pid ans, pstatus = PSTAT_RUNNING,
                                           command = c\<rparr>],
                               num_processes_alive := num_processes_alive j + 1\<rparr>) st1)
                     else Halt Fault st1)))"

text \<open>The body of the loop over the commands of a pipeline.\<close>

definition run_command ::
  "ast_pipeline \<Rightarrow> sys_answers \<Rightarrow> bool \<Rightarrow> ast_command \<Rightarrow> addr option \<Rightarrow> int \<Rightarrow> shell
     \<Rightarrow> (addr option \<times> int) outcome" where
  "run_command p ans is_last c job pgrp st =
     (if \<not> is_last \<and> pipe2_rc ans < 0 then exit_builtin (emit (Perror ''pipe2 error'') st)
      else
        (case argv c of
           [] \<Rightarrow> Halt Fault st
         | a0 # args \<Rightarrow>
             if a0 = ''exit'' then exit_builtin st
             else if a0 = ''jobs'' then keep (job, pgrp) (jobs_builtin st)
             else if a0 = ''kill'' then keep (job, pgrp) (kill_builtin (argv c) st)
             else if a0 = ''bg'' then keep (job, pgrp) (bg_builtin (argv c) st)
             else if a0 = ''fg'' then keep (job, pgrp) (fg_builtin (argv c) st)
             else if a0 = ''stop'' then keep (job, pgrp) (stop_builtin (argv c) st)
             else if a0 = ''history'' then keep (job, pgrp) (history_builtin (argv c) st)
             else if a0 = ''cd'' then keep (job, pgrp) (cd_builtin (argv c) st)
             else spawn_command p ans c a0 job pgrp st))"

fun run_commands ::
  "ast_pipeline \<Rightarrow> (nat \<Rightarrow> sys_answers) \<Rightarrow> nat \<Rightarrow> ast_command list \<Rightarrow> addr option \<Rightarrow> int
     \<Rightarrow> shell \<Rightarrow> (addr option \<times> int) outcome" where
  "run_commands p sys i [] job pgrp st = Ret (job, pgrp) st"
| "run_commands p sys i (c # cs) job pgrp st =
     (case run_command p (sys i) (cs = []) c job pgrp st of
        Ret (job1, pgrp1) st1 \<Rightarrow>
          run_commands (cd_written (home st) i c p) sys (Suc i) cs job1 pgrp1
            (cd_written_job (home st) i c job1 st1)
      | Halt h s \<Rightarrow> Halt h s)"

text \<open>The body of the loop over the pipelines of a command line.\<close>

definition run_pipeline :: "pipeline_run \<Rightarrow> shell \<Rightarrow> unit outcome" where
  "run_pipeline pr st =
     (case run_commands (fst pr) (snd pr) 0 (commands (fst pr)) None 0 st of
        Halt h s \<Rightarrow> Halt h s
      | Ret (job, pgrp) st1 \<Rightarrow>
          (case job of
             None \<Rightarrow> Ret () st1
           | Some a \<Rightarrow>
               (case heap st1 a of
                  None \<Rightarrow> Halt Fault st1
                | Some j \<Rightarrow>
                    if \<not> bg_job (fst pr) then
                      (case wait_for_job a
                              (termstate_give_terminal_to (saved_tty_state j) pgrp st1) of
                         Halt h s \<Rightarrow> Halt h s
                       | Ret u st2 \<Rightarrow>
                           (case heap st2 a of
                              None \<Rightarrow> Halt Fault st2
                            | Some j2 \<Rightarrow>
                                if status j2 = TERMINATED then discard_job a st2 else Ret () st2))
                    else
                      Ret () (emit (Stdout (''['' @ show_int (jid j) @ ''] ''
                                            @ show_int (pgid j) @ nl)) st1))))"

fun run_pipelines :: "pipeline_run list \<Rightarrow> shell \<Rightarrow> unit outcome" where
  "run_pipelines [] st = Ret () st"
| "run_pipelines (pr # prs) st =
     (case run_pipeline pr st of
        Ret u st1 \<Rightarrow> run_pipelines prs st1
      | Halt h s \<Rightarrow> Halt h s)"

text \<open>
  One input of the shell: the number of times \<open>SIGCHLD\<close> is delivered while \<open>readline\<close>
  waits (the signal is unblocked only there), the value \<open>history_expand\<close> returns, the
  text of the line that is then added to the history and parsed (the expansion, or the
  line as read when the expansion failed), and the result of parsing it.  The end of the
  input list is end-of-file.
\<close>

datatype parsed = Parse_error | Cmdline "pipeline_run list"

record input =
  sigchlds :: nat
  expand_rc :: int
  cmdline :: string
  line :: parsed

fun handlers :: "nat \<Rightarrow> shell \<Rightarrow> unit outcome" where
  "handlers 0 st = Ret () st"
| "handlers (Suc n) st =
     (case sigchld_handler SIGCHLD st of
        Ret u st1 \<Rightarrow> handlers n st1
      | Halt h s \<Rightarrow> Halt h s)"

definition eval_line :: "parsed \<Rightarrow> shell \<Rightarrow> unit outcome" where
  "eval_line l st =
     (case l of
        Parse_error \<Rightarrow> Ret () st
      | Cmdline prs \<Rightarrow>
          if prs = [] then Ret () st
          else (case run_pipelines prs st of
                  Ret u st1 \<Rightarrow> Ret () (termstate_give_terminal_back_to_shell st1)
                | Halt h s \<Rightarrow> Halt h s))"

text \<open>The history expansion of the line read, and \<open>add_history\<close>.\<close>

definition add_history :: "input \<Rightarrow> shell \<Rightarrow> shell" where
  "add_history inp st =
     (let st1 = (if 0 \<le> expand_rc inp then st
                 else emit (Stdout (''Error in history expansion'' @ nl)) st)
      in st1\<lparr>history := history st1 @ [cmdline inp]\<rparr>)"

definition shell_iter :: "input \<Rightarrow> shell \<Rightarrow> unit outcome" where
  "shell_iter inp st =
     (case handlers (sigchlds inp) st of
        Ret u st1 \<Rightarrow> eval_line (line inp) (add_history inp st1)
      | Halt h s \<Rightarrow> Halt h s)"

text \<open>
  \<open>shell_loop\<close>: the assertion on the owner of the terminal, then one input; at
  end-of-file the loop is left and the function returns.
\<close>

fun shell_loop :: "input list \<Rightarrow> shell \<Rightarrow> unit outcome" where
  "shell_loop [] st =
     (if termstate_get_current_terminal_owner st \<noteq> shell_pgrp st then Halt Abort st
      else Ret () st)"
| "shell_loop (inp # inps) st =
     (if termstate_get_current_terminal_owner st \<noteq> shell_pgrp st then Halt Abort st
      else (case shell_iter inp st of
              Ret u st1 \<Rightarrow> shell_loop inps st1
            | Halt h s \<Rightarrow> Halt h s))"

text \<open>
  The state in which \<open>main\<close> enters the loop: an empty job list, an all-null \<open>jid2job\<close>, the
  terminal mode saved by \<open>termstate_init\<close> and an empty history.  The environment of
  \<open>initial\<close> has no \<open>HOME\<close> and no directory to change to; a run in another environment
  starts from \<open>initial\<close> with \<open>home\<close> and \<open>dirs\<close> set.  \<open>main\<close> returns 0 when the loop is
  left.
\<close>

definition initial :: "int \<Rightarrow> int \<Rightarrow> termios \<Rightarrow> (int \<times> wstatus) list \<Rightarrow> shell" where
  "initial pg owner t script =
     \<lparr>heap = (\<lambda>a. None), next_free = 0, job_list = [], jid2job = (\<lambda>i. None),
      shell_pgrp = pg, term_owner = owner, tty = t, shell_tty = t, pending = script,
      trace = [], history = [], home = None, dirs = (\<lambda>d. False)\<rparr>"

definition main :: "shell \<Rightarrow> input list \<Rightarrow> 'a outcome" where
  "main st0 inps =
     (case shell_loop inps st0 of
        Ret u st \<Rightarrow> Halt (Exit 0) st
      | Halt h s \<Rightarrow> Halt h s)"

section \<open>Predicates of the statements\<close>

text \<open>The names the loop body compares \<open>argv[0]\<close> with.\<close>

definition is_builtin :: "string \<Rightarrow> bool" where
  "is_builtin a0 =
     (a0 = ''exit'' \<or> a0 = ''jobs'' \<or> a0 = ''kill'' \<or> a0 = ''bg'' \<or> a0 = ''fg''
      \<or> a0 = ''stop'' \<or> a0 = ''history'' \<or> a0 = ''cd'')"

definition external :: "ast_command \<Rightarrow> bool" where
  "external c = (case argv c of [] \<Rightarrow> False | a0 # args \<Rightarrow> \<not> is_builtin a0)"

definition not_found :: "ast_command \<Rightarrow> event" where
  "not_found c = Stdout (hd (argv c) @ '': No such file or directory'' @ nl)"

text \<open>
  For every job on the heap the live-process count equals the length of the live-process
  sequence.
\<close>

definition count_ok :: "shell \<Rightarrow> bool" where
  "count_ok st =
     (\<forall>a j. heap st a = Some j \<longrightarrow> num_processes_alive j = int (length (live_procs j)))"

text \<open>
  The process ids of the live processes of the jobs \<open>as\<close>; the values \<open>waitpid\<close> returns
  when the processes die of \<open>SIGKILL\<close> one job after the other, those of job \<open>a\<close> in the
  order \<open>ord a\<close>; and what killing and reaping these jobs one after the other adds to the
  trace.  \<open>death_order\<close> says that \<open>ord\<close> lists, for every job of the list, each of its live
  processes once.
\<close>

definition live_pids :: "shell \<Rightarrow> addr list \<Rightarrow> int list" where
  "live_pids st as =
     concat (map (\<lambda>a. case heap st a of None \<Rightarrow> [] | Some j \<Rightarrow> map pid (live_procs j)) as)"


definition death_order :: "shell \<Rightarrow> (addr \<Rightarrow> int list) \<Rightarrow> bool" where
  "death_order st ord =
     list_all (\<lambda>a. distinct (ord a) \<and> set (ord a) = set (live_pids st [a])) (job_list st)"

definition kill_trace :: "shell \<Rightarrow> addr list \<Rightarrow> event list" where
  "kill_trace st as =
     concat (map (\<lambda>a. case heap st a of
                          None \<Rightarrow> []
                        | Some j \<Rightarrow> Kill (- pgid j) SIGKILL
                                    # replicate (length (live_procs j)) (Strsignal SIGKILL)) as)"

text \<open>
  A registry of live jobs: no job is listed twice, every listed job is on the heap with at
  least one live process and a count that matches its array, and the live processes all
  have different, positive process ids.
\<close>

definition registry_live :: "shell \<Rightarrow> bool" where
  "registry_live st =
     (distinct (job_list st)
      \<and> list_all (\<lambda>a. case heap st a of
                          None \<Rightarrow> False
                        | Some j \<Rightarrow> 0 < num_processes_alive j
                                    \<and> num_processes_alive j = int (length (live_procs j)))
           (job_list st)
      \<and> distinct (live_pids st (job_list st))
      \<and> list_all (\<lambda>p. 0 < p) (live_pids st (job_list st)))"



text \<open>
  The invariant of the foreground status: at most one job of the list is in the
  foreground, and a job that is in the foreground owns the terminal.
\<close>

definition fg_invariant :: "shell \<Rightarrow> bool" where
  "fg_invariant st =
     ((\<forall>a b ja jb. a \<in> set (job_list st) \<and> b \<in> set (job_list st)
          \<and> heap st a = Some ja \<and> heap st b = Some jb
          \<and> status ja = FOREGROUND \<and> status jb = FOREGROUND \<longrightarrow> a = b)
      \<and> (\<forall>a j. a \<in> set (job_list st) \<and> heap st a = Some j \<and> status j = FOREGROUND \<longrightarrow>
             term_owner st = pgid j))"

text \<open>
  A job is settled when it runs in the background or is stopped and has a live process;
  it is alive when it has a live process and is not marked \<open>TERMINATED\<close>; while it is waited
  for it is alive, or \<open>TERMINATED\<close> with no live process.
\<close>

definition settled :: "job \<Rightarrow> bool" where
  "settled j =
     (status j \<noteq> FOREGROUND \<and> status j \<noteq> TERMINATED \<and> 0 < num_processes_alive j)"

definition alive :: "job \<Rightarrow> bool" where
  "alive j = (status j \<noteq> TERMINATED \<and> 0 < num_processes_alive j)"

definition in_wait :: "job \<Rightarrow> bool" where
  "in_wait j = (alive j \<or> (status j = TERMINATED \<and> num_processes_alive j = 0))"

definition others_settled :: "addr option \<Rightarrow> shell \<Rightarrow> bool" where
  "others_settled w st = (\<forall>b j. heap st b = Some j \<and> w \<noteq> Some b \<longrightarrow> settled j)"

definition quiet :: "shell \<Rightarrow> bool" where
  "quiet st = others_settled None st"

definition waiting :: "addr option \<Rightarrow> shell \<Rightarrow> bool" where
  "waiting w st =
     (others_settled w st \<and> (\<forall>a j. w = Some a \<and> heap st a = Some j \<longrightarrow> in_wait j))"

definition building :: "ast_pipeline \<Rightarrow> addr option \<Rightarrow> shell \<Rightarrow> bool" where
  "building p w st =
     (others_settled w st
      \<and> (\<forall>a j. w = Some a \<and> heap st a = Some j \<longrightarrow>
             alive j \<and> (bg_job p \<longrightarrow> status j \<noteq> FOREGROUND)))"

text \<open>
  A pipeline is tame when no \<open>fg\<close> and no \<open>kill\<close> comes after a command that is not a
  builtin; the flag tells whether such a command has been passed.
\<close>

fun tame :: "bool \<Rightarrow> ast_command list \<Rightarrow> bool" where
  "tame seen [] = True"
| "tame seen (c # cs) =
     (case argv c of
        [] \<Rightarrow> True
      | a0 # args \<Rightarrow>
          if a0 = ''fg'' \<or> a0 = ''kill'' then \<not> seen \<and> tame seen cs
          else tame (seen \<or> \<not> is_builtin a0) cs)"

definition tame_line :: "parsed \<Rightarrow> bool" where
  "tame_line l =
     (case l of
        Parse_error \<Rightarrow> True
      | Cmdline prs \<Rightarrow> list_all (\<lambda>pr. tame False (commands (fst pr))) prs)"

section \<open>Example inputs\<close>

text \<open>Concrete pipelines, kernel answers and states on which the theorems are exercised.\<close>

definition demo_pipeline :: "string list list \<Rightarrow> bool \<Rightarrow> ast_pipeline" where
  "demo_pipeline css b =
     \<lparr>commands = map (\<lambda>ws. \<lparr>argv = ws, dup_stderr_to_stdout = False\<rparr>) css,
      iored_input = None, iored_output = None, append_to_output = False, bg_job = b\<rparr>"

definition demo_job :: "job_status \<Rightarrow> job" where
  "demo_job s =
     \<lparr>pipe = demo_pipeline [[''sleep'', ''5'']] (s = BACKGROUND), jid = 1, status = s,
      num_processes_alive = 1, saved_tty_state = 0, pgid = 100,
      procs = [\<lparr>pid = 100, pstatus = PSTAT_RUNNING,
                command = \<lparr>argv = [''sleep'', ''5''], dup_stderr_to_stdout = False\<rparr>\<rparr>]\<rparr>"

definition demo_shell :: "job_status \<Rightarrow> (int \<times> wstatus) list \<Rightarrow> shell" where
  "demo_shell s script =
     \<lparr>heap = (\<lambda>a. None)(0 \<mapsto> demo_job s), next_free = 1, job_list = [0],
      jid2job = (\<lambda>i. None)(1 \<mapsto> 0), shell_pgrp = 1, term_owner = 1, tty = 0, shell_tty = 0,
      pending = script, trace = [], history = [], home = None, dirs = (\<lambda>d. False)\<rparr>"

definition demo_job3 :: "job_status \<Rightarrow> job" where
  "demo_job3 s =
     \<lparr>pipe = demo_pipeline [[''cat''], [''sort''], [''uniq'']] (s = BACKGROUND), jid = 1,
      status = s, num_processes_alive = 3, saved_tty_state = 0, pgid = 100,
      procs = [\<lparr>pid = 100, pstatus = PSTAT_RUNNING,
                command = \<lparr>argv = [''cat''], dup_stderr_to_stdout = False\<rparr>\<rparr>,
               \<lparr>pid = 101, pstatus = PSTAT_RUNNING,
                command = \<lparr>argv = [''sort''], dup_stderr_to_stdout = False\<rparr>\<rparr>,
               \<lparr>pid = 102, pstatus = PSTAT_RUNNING,
                command = \<lparr>argv = [''uniq''], dup_stderr_to_stdout = False\<rparr>\<rparr>]\<rparr>"

definition demo_shell3 :: "job_status \<Rightarrow> (int \<times> wstatus) list \<Rightarrow> shell" where
  "demo_shell3 s script =
     \<lparr>heap = (\<lambda>a. None)(0 \<mapsto> demo_job3 s), next_free = 1, job_list = [0],
      jid2job = (\<lambda>i. None)(1 \<mapsto> 0), shell_pgrp = 1, term_owner = 1, tty = 0, shell_tty = 0,
      pending = script, trace = [], history = [], home = None, dirs = (\<lambda>d. False)\<rparr>"






definition spawns_ok :: "int \<Rightarrow> nat \<Rightarrow> sys_answers" where
  "spawns_ok p k = \<lparr>pipe2_rc = 0, spawn_rc = 0, spawn_pid = p + int k\<rparr>"

definition bg_sleep :: input where
  "bg_sleep =
     \<lparr>sigchlds = 0, expand_rc = 0, cmdline = ''sleep 5 &'',
      line = Cmdline [(demo_pipeline [[''sleep'', ''5'']] True, spawns_ok 100)]\<rparr>"

definition fg_sleep :: input where
  "fg_sleep =
     \<lparr>sigchlds = 0, expand_rc = 0, cmdline = ''sleep 5'',
      line = Cmdline [(demo_pipeline [[''sleep'', ''5'']] False, spawns_ok 100)]\<rparr>"

definition fg_first :: input where
  "fg_first =
     \<lparr>sigchlds = 0, expand_rc = 0, cmdline = ''fg 1'',
      line = Cmdline [(demo_pipeline [[''fg'', ''1'']] False, spawns_ok 0)]\<rparr>"

definition resumed_job :: job where
  "resumed_job =
     (demo_job FOREGROUND)
       \<lparr>procs := [\<lparr>pid = 100, pstatus = PSTAT_STOPPED,
                   command = \<lparr>argv = [''sleep'', ''5''], dup_stderr_to_stdout = False\<rparr>\<rparr>]\<rparr>"

definition resumed_shell :: shell where
  "resumed_shell =
     (demo_shell FOREGROUND [])
       \<lparr>heap := (\<lambda>a. None)(0 \<mapsto> resumed_job), term_owner := 100,
        trace := [TermSave, TermGive 100, TermSave,
                  Stdout (''[1]'' @ tab @ ''Stopped'' @ tab @ tab @ ''(sleep 5)'' @ nl),
                  TermGiveBack, TermGive 100, Kill (- 100) SIGCONT, Stdout (''sleep 5'' @ nl)],
        history := [''sleep 5'', ''fg 1'']\<rparr>"

definition zombie_line :: input where
  "zombie_line =
     \<lparr>sigchlds = 0, expand_rc = 0, cmdline = ''true | kill 1 | fg 2'',
      line = Cmdline [(demo_pipeline [[''true''], [''kill'', ''1''], [''fg'', ''2'']] False,
                       spawns_ok 200)]\<rparr>"

definition bg_sleep_again :: input where
  "bg_sleep_again =
     \<lparr>sigchlds = 0, expand_rc = 0, cmdline = ''sleep 5 &'',
      line = Cmdline [(demo_pipeline [[''sleep'', ''5'']] True, spawns_ok 300)]\<rparr>"

definition zombie_line_again :: input where
  "zombie_line_again =
     \<lparr>sigchlds = 0, expand_rc = 0, cmdline = ''true | kill 1 | fg 3'',
      line = Cmdline [(demo_pipeline [[''true''], [''kill'', ''1''], [''fg'', ''3'']] False,
                       spawns_ok 400)]\<rparr>"

definition zombie_job :: "string \<Rightarrow> int \<Rightarrow> int \<Rightarrow> job" where
  "zombie_job arg n pg =
     \<lparr>pipe = demo_pipeline [[''true''], [''kill'', ''1''], [''fg'', arg]] False, jid = n,
      status = FOREGROUND, num_processes_alive = 0, saved_tty_state = 0, pgid = pg,
      procs = [\<lparr>pid = pg, pstatus = PSTAT_RUNNING,
                command = \<lparr>argv = [''true''], dup_stderr_to_stdout = False\<rparr>\<rparr>,
               junk_process, junk_process]\<rparr>"

definition two_zombies :: shell where
  "two_zombies =
     \<lparr>heap = (\<lambda>a. None)(1 \<mapsto> zombie_job ''2'' 2 200, 3 \<mapsto> zombie_job ''3'' 3 400),
      next_free = 4, job_list = [1, 3], jid2job = (\<lambda>i. None)(2 \<mapsto> 1, 3 \<mapsto> 3),
      shell_pgrp = 1, term_owner = 1, tty = 0, shell_tty = 0, pending = [],
      trace = [TermSave, Stdout (''[1] 100'' @ nl), TermGiveBack,
               TermSave, Kill (- 100) SIGKILL, TermSample, Strsignal 9,
               TermGive 200, Kill (- 200) SIGCONT, Stdout (''true| kill 1| fg 2'' @ nl),
               TermGive 200, TermGiveBack,
               TermSave, Stdout (''[1] 300'' @ nl), TermGiveBack,
               TermSave, Kill (- 300) SIGKILL, TermSample, Strsignal 9,
               TermGive 400, Kill (- 400) SIGCONT, Stdout (''true| kill 1| fg 3'' @ nl),
               TermGive 400, TermGiveBack],
      history = [''sleep 5 &'', ''true | kill 1 | fg 2'', ''sleep 5 &'', ''true | kill 1 | fg 3''],
      home = None, dirs = (\<lambda>d. False)\<rparr>"


section \<open>Stores that change no job\<close>

lemma history_lines_fields:
  "heap (history_lines i ls st) = heap st \<and> job_list (history_lines i ls st) = job_list st
   \<and> jid2job (history_lines i ls st) = jid2job st \<and> pending (history_lines i ls st) = pending st
   \<and> term_owner (history_lines i ls st) = term_owner st
   \<and> shell_pgrp (history_lines i ls st) = shell_pgrp st
   \<and> home (history_lines i ls st) = home st"
  by (induction ls arbitrary: i st) (simp_all add: emit_def)

lemma history_lines_trace: "\<exists>es. trace (history_lines i ls st) = trace st @ es"
proof (induction ls arbitrary: i st)
  case Nil
  then show ?case by simp
next
  case (Cons l ls)
  let ?e = "Stdout (show_int (int i) @ '' '' @ l @ nl)"
  from Cons[of "Suc i" "emit ?e st"]
  obtain es where "trace (history_lines (Suc i) ls (emit ?e st)) = trace (emit ?e st) @ es"
    by blast
  then have "trace (history_lines i (l # ls) st) = trace st @ (?e # es)"
    by (simp add: emit_def)
  then show ?case by blast
qed

lemma heap_history_lines [simp]: "heap (history_lines i ls st) = heap st"
  by (simp add: history_lines_fields)

lemma heap_add_history [simp]: "heap (add_history inp st) = heap st"
  by (simp add: add_history_def emit_def Let_def)

lemma external_not_cd: "external c \<Longrightarrow> take 1 (argv c) \<noteq> [''cd'']"
  by (auto simp: external_def is_builtin_def split: list.splits)

lemma cd_written_other: "take 1 (argv c) \<noteq> [''cd''] \<Longrightarrow> cd_written h i c p = p"
  by (simp add: cd_written_def)

lemma cd_written_job_other:
  "take 1 (argv c) \<noteq> [''cd''] \<Longrightarrow> cd_written_job h i c job st = st"
  by (simp add: cd_written_job_def)

lemma cd_written_job_heap:
  "heap (cd_written_job h i c job st) a = Some j' \<Longrightarrow>
     \<exists>j. heap st a = Some j \<and> status j' = status j
        \<and> num_processes_alive j' = num_processes_alive j \<and> procs j' = procs j
        \<and> pgid j' = pgid j \<and> jid j' = jid j"
  by (auto simp: cd_written_job_def store_def split: option.splits if_splits)

lemma cd_written_job_fields:
  "job_list (cd_written_job h i c job st) = job_list st
   \<and> jid2job (cd_written_job h i c job st) = jid2job st
   \<and> pending (cd_written_job h i c job st) = pending st
   \<and> trace (cd_written_job h i c job st) = trace st
   \<and> term_owner (cd_written_job h i c job st) = term_owner st
   \<and> shell_pgrp (cd_written_job h i c job st) = shell_pgrp st
   \<and> home (cd_written_job h i c job st) = home st"
  by (auto simp: cd_written_job_def store_def split: option.splits)

lemma cd_written_job_dom:
  "(heap (cd_written_job h i c job st) a = None) = (heap st a = None)"
  by (auto simp: cd_written_job_def store_def split: option.splits)

lemma cd_written_bg [simp]: "bg_job (cd_written h i c p) = bg_job p"
  by (simp add: cd_written_def)

lemma cd_written_length [simp]: "length (commands (cd_written h i c p)) = length (commands p)"
  by (simp add: cd_written_def)

lemma history_builtin_heap: "history_builtin av st = Ret u st' \<Longrightarrow> heap st' = heap st"
  by (auto simp: history_builtin_def)

lemma cd_builtin_heap: "cd_builtin av st = Ret u st' \<Longrightarrow> heap st' = heap st"
  by (auto simp: cd_builtin_def emit_def split: list.splits if_splits)

lemma count_ok_cd_written_job:
  assumes "count_ok st"
  shows "count_ok (cd_written_job h i c job st)"
  unfolding count_ok_def
proof (intro allI impI)
  fix a j'
  assume "heap (cd_written_job h i c job st) a = Some j'"
  from cd_written_job_heap[OF this] obtain j where "heap st a = Some j"
    "num_processes_alive j' = num_processes_alive j" "procs j' = procs j" by blast
  with assms show "num_processes_alive j' = int (length (live_procs j'))"
    by (auto simp: count_ok_def live_procs_def)
qed

section \<open>Evaluation on concrete inputs\<close>

lemmas run_defs = main_def shell_iter_def eval_line_def run_pipeline_def run_command_def
  spawn_command_def spawn_sets_terminal_def create_job_def add_job_def fresh_job_def junk_process_def keep_def
  termstate_save_def termstate_give_terminal_to_def termstate_give_terminal_back_to_shell_def
  termstate_sample_def termstate_get_current_terminal_owner_def emit_def store_def
  demo_pipeline_def spawns_ok_def initial_def ENOENT_def Let_def add_history_def
  cd_written_def cd_written_job_def

lemma first_free_empty: "first_free_jid (\<lambda>i. None) 1 = Some 1"
  by (subst first_free_jid.simps) (simp add: MAXJOBS_def)

lemma show_int_1: "show_int 1 = ''1''"
  by (simp add: show_int_def show_nat.simps digit_char_def)

lemma show_int_100: "show_int 100 = ''100''"
  by (simp add: show_int_def show_nat.simps digit_char_def)

lemma first_free_after_one: "first_free_jid ((\<lambda>i. None)(1 \<mapsto> a)) 1 = Some 2"
  by (subst first_free_jid.simps, simp add: MAXJOBS_def)
     (subst first_free_jid.simps, simp add: MAXJOBS_def)

lemma atoi_1: "atoi ''1'' = 1"
  by (simp add: atoi_def strtol_def long_to_int_def LONG_MAX_def LONG_MIN_def is_space_def
      is_digit_def)

lemma atoi_2: "atoi ''2'' = 2"
  by (simp add: atoi_def strtol_def long_to_int_def LONG_MAX_def LONG_MIN_def is_space_def
      is_digit_def)

lemma atoi_3: "atoi ''3'' = 3"
  by (simp add: atoi_def strtol_def long_to_int_def LONG_MAX_def LONG_MIN_def is_space_def
      is_digit_def)

lemma first_free_after_two: "first_free_jid ((\<lambda>i. None)(2 \<mapsto> a)) 1 = Some 1"
  by (subst first_free_jid.simps, simp add: MAXJOBS_def)

lemma first_free_after_three: "first_free_jid ((\<lambda>i. None)(2 \<mapsto> a, 1 \<mapsto> b)) 1 = Some 3"
  by (subst first_free_jid.simps, simp add: MAXJOBS_def)
     (subst first_free_jid.simps, simp add: MAXJOBS_def,
      subst first_free_jid.simps, simp add: MAXJOBS_def)

lemma show_int_300: "show_int 300 = ''300''"
  by (simp add: show_int_def show_nat.simps digit_char_def)

lemmas reaper_defs = kill_builtin_def fg_builtin_def get_job_from_jid_def
  MAXJOBS_def wait_for_job.simps handle_child_status_def find_pid_def live_procs_def
  WIFSTOPPED_def WIFEXITED_def WIFSIGNALED_def WTERMSIG_def WEXITSTATUS_def
  handle_terminated_child_def memmove_down_def discard_job_def list_remove_def
  delete_job_def no_such_job_def print_cmdline_def SIGKILL_def SIGCONT_def


section \<open>The job registry\<close>

lemma MAXJOBS_eq: "MAXJOBS = 65536"
  by (simp add: MAXJOBS_def)

lemma first_free_jid_Some:
  "first_free_jid tbl i = Some k \<Longrightarrow>
     i \<le> k \<and> k < MAXJOBS \<and> tbl k = None \<and> (\<forall>m. i \<le> m \<and> m < k \<longrightarrow> tbl m \<noteq> None)"
proof (induction tbl i rule: first_free_jid.induct)
  case (1 tbl i)
  show ?case
  proof (cases "i < MAXJOBS \<and> tbl i \<noteq> None")
    case True
    with "1.prems" have "first_free_jid tbl (i + 1) = Some k"
      by (subst (asm) first_free_jid.simps) simp
    with "1.IH" True
    have ih: "i + 1 \<le> k \<and> k < MAXJOBS \<and> tbl k = None \<and> (\<forall>m. i + 1 \<le> m \<and> m < k \<longrightarrow> tbl m \<noteq> None)"
      by blast
    have "\<forall>m. i \<le> m \<and> m < k \<longrightarrow> tbl m \<noteq> None"
    proof (intro allI impI)
      fix m assume m: "i \<le> m \<and> m < k"
      show "tbl m \<noteq> None"
      proof (cases "m = i")
        case True
        with \<open>i < MAXJOBS \<and> tbl i \<noteq> None\<close> show ?thesis by simp
      next
        case False
        with m have "i + 1 \<le> m \<and> m < k" by arith
        with ih show ?thesis by blast
      qed
    qed
    with ih show ?thesis by simp
  next
    case False
    with "1.prems" show ?thesis
      by (subst (asm) first_free_jid.simps) (auto split: if_splits)
  qed
qed

lemma first_free_jid_None:
  "first_free_jid tbl i = None \<Longrightarrow> (\<forall>m. i \<le> m \<and> m < MAXJOBS \<longrightarrow> tbl m \<noteq> None)"
proof (induction tbl i rule: first_free_jid.induct)
  case (1 tbl i)
  show ?case
  proof (cases "i < MAXJOBS")
    case True
    with "1.prems" have t: "tbl i \<noteq> None" and r: "first_free_jid tbl (i + 1) = None"
      by (subst (asm) first_free_jid.simps, auto split: if_splits)+
    from "1.IH" True t r have ih: "\<forall>m. i + 1 \<le> m \<and> m < MAXJOBS \<longrightarrow> tbl m \<noteq> None"
      by blast
    show ?thesis
    proof (intro allI impI)
      fix m assume m: "i \<le> m \<and> m < MAXJOBS"
      show "tbl m \<noteq> None"
      proof (cases "m = i")
        case True with t show ?thesis by simp
      next
        case False
        with m have "i + 1 \<le> m \<and> m < MAXJOBS" by arith
        with ih show ?thesis by blast
      qed
    qed
  next
    case False
    then show ?thesis by auto
  qed
qed


text \<open>
  Claim C6.  \<open>add_job\<close> creates the job with no live processes, gives it the smallest id
  from 1 on that is free in \<open>jid2job\<close>, enters it there and appends it to \<open>job_list\<close>;
  when no id below \<open>MAXJOBS\<close> is free the shell aborts.
\<close>

theorem add_job_allocate:
  "(if \<exists>k. 1 \<le> k \<and> k < MAXJOBS \<and> jid2job st k = None
    then \<exists>i. 1 \<le> i \<and> i < MAXJOBS \<and> jid2job st i = None
           \<and> (\<forall>m. 1 \<le> m \<and> m < i \<longrightarrow> jid2job st m \<noteq> None)
           \<and> add_job p st =
               Ret (next_free st)
                 (st\<lparr>heap := (heap st)(next_free st \<mapsto> (fresh_job p)\<lparr>jid := i\<rparr>),
                     next_free := Suc (next_free st),
                     job_list := job_list st @ [next_free st],
                     jid2job := (jid2job st)(i \<mapsto> next_free st)\<rparr>)
           \<and> num_processes_alive ((fresh_job p)\<lparr>jid := i\<rparr>) = 0
    else \<exists>s. add_job p st = Halt Abort s)"
proof (cases "first_free_jid (jid2job st) 1")
  case None
  from first_free_jid_None[OF None]
  have neg: "\<not> (\<exists>k. 1 \<le> k \<and> k < MAXJOBS \<and> jid2job st k = None)" by blast
  have "\<exists>s. add_job p st = Halt Abort s"
    using None by (simp add: add_job_def Let_def)
  then show ?thesis by (subst if_not_P[OF neg])
next
  case (Some i)
  from first_free_jid_Some[OF Some]
  have i: "1 \<le> i \<and> i < MAXJOBS \<and> jid2job st i = None
           \<and> (\<forall>m. 1 \<le> m \<and> m < i \<longrightarrow> jid2job st m \<noteq> None)" .
  then have ex: "\<exists>k. 1 \<le> k \<and> k < MAXJOBS \<and> jid2job st k = None" by blast
  have r: "add_job p st =
               Ret (next_free st)
                 (st\<lparr>heap := (heap st)(next_free st \<mapsto> (fresh_job p)\<lparr>jid := i\<rparr>),
                     next_free := Suc (next_free st),
                     job_list := job_list st @ [next_free st],
                     jid2job := (jid2job st)(i \<mapsto> next_free st)\<rparr>)"
    using Some by (simp add: add_job_def Let_def)
  have z: "num_processes_alive ((fresh_job p)\<lparr>jid := i\<rparr>) = 0"
    by (simp add: fresh_job_def)
  from i r z show ?thesis by (subst if_P[OF ex]) blast
qed


theorem add_job_allocate_witness:
  "(\<exists>st'. add_job (demo_pipeline [[''sleep'', ''5'']] True) (initial 1 1 0 []) = Ret 0 st'
          \<and> jid2job st' 1 = Some 0 \<and> job_list st' = [0]
          \<and> map_option num_processes_alive (heap st' 0) = Some 0)
   \<and> (\<exists>s. add_job (demo_pipeline [[''sleep'', ''5'']] True)
              ((initial 1 1 0 [])\<lparr>jid2job := (\<lambda>i. Some 0)\<rparr>) = Halt Abort s)"
proof
  let ?P = "demo_pipeline [[''sleep'', ''5'']] True"
  let ?E = "initial 1 1 0 []"
  have ex: "\<exists>k. 1 \<le> k \<and> k < MAXJOBS \<and> jid2job ?E k = None"
    by (rule exI[of _ 1]) (simp add: initial_def MAXJOBS_def)
  from add_job_allocate[of ?E ?P] ex
  obtain i where i: "1 \<le> i" "\<forall>m. 1 \<le> m \<and> m < i \<longrightarrow> jid2job ?E m \<noteq> None"
    and r: "add_job ?P ?E =
               Ret (next_free ?E)
                 (?E\<lparr>heap := (heap ?E)(next_free ?E \<mapsto> (fresh_job ?P)\<lparr>jid := i\<rparr>),
                     next_free := Suc (next_free ?E),
                     job_list := job_list ?E @ [next_free ?E],
                     jid2job := (jid2job ?E)(i \<mapsto> next_free ?E)\<rparr>)"
    by (simp only: if_True) blast
  have "i = 1"
  proof (rule ccontr)
    assume "i \<noteq> 1"
    with i(1) have "1 \<le> (1::int) \<and> 1 < i" by simp
    with i(2) have "jid2job ?E 1 \<noteq> None" by blast
    then show False by (simp add: initial_def)
  qed
  with r show "\<exists>st'. add_job ?P ?E = Ret 0 st'
          \<and> jid2job st' 1 = Some 0 \<and> job_list st' = [0]
          \<and> map_option num_processes_alive (heap st' 0) = Some 0"
    by (simp add: initial_def fresh_job_def)
next
  let ?P = "demo_pipeline [[''sleep'', ''5'']] True"
  let ?F = "(initial 1 1 0 [])\<lparr>jid2job := (\<lambda>i. Some 0)\<rparr>"
  have "\<not> (\<exists>k. 1 \<le> k \<and> k < MAXJOBS \<and> jid2job ?F k = None)" by simp
  with add_job_allocate[of ?F ?P]
  show "\<exists>s. add_job ?P ?F = Halt Abort s" by (simp only: if_False)
qed


text \<open>
  Claim C9.  \<open>get_job_from_jid\<close> answers with the table entry exactly for the ids from 1 to
  65535 and with nothing for every other integer, and the ids \<open>add_job\<close> hands out are
  in that range and found again by the lookup.
\<close>

theorem jid_namespace:
  "get_job_from_jid i st = (if 1 \<le> i \<and> i \<le> 65535 then jid2job st i else None)
   \<and> (add_job p st = Ret a st' \<longrightarrow>
        (\<exists>j. heap st' a = Some j \<and> 1 \<le> jid j \<and> jid j \<le> 65535
              \<and> get_job_from_jid (jid j) st' = Some a))"
proof
  show "get_job_from_jid i st = (if 1 \<le> i \<and> i \<le> 65535 then jid2job st i else None)"
    by (auto simp: get_job_from_jid_def MAXJOBS_def)
next
  show "add_job p st = Ret a st' \<longrightarrow>
        (\<exists>j. heap st' a = Some j \<and> 1 \<le> jid j \<and> jid j \<le> 65535
              \<and> get_job_from_jid (jid j) st' = Some a)"
  proof
    assume r: "add_job p st = Ret a st'"
    then obtain i where f: "first_free_jid ((jid2job st)) 1 = Some i"
      by (auto simp: add_job_def Let_def split: option.splits)
    from first_free_jid_Some[OF f] have i: "1 \<le> i" "i < MAXJOBS" by simp_all
    from r f have a: "a = next_free st"
      and st': "st' = st\<lparr>heap := (heap st)(next_free st \<mapsto> (fresh_job p)\<lparr>jid := i\<rparr>),
                     next_free := Suc (next_free st),
                     job_list := job_list st @ [next_free st],
                     jid2job := (jid2job st)(i \<mapsto> next_free st)\<rparr>"
      by (auto simp: add_job_def Let_def)
    show "\<exists>j. heap st' a = Some j \<and> 1 \<le> jid j \<and> jid j \<le> 65535
              \<and> get_job_from_jid (jid j) st' = Some a"
      using i a st' by (simp add: get_job_from_jid_def MAXJOBS_def)
  qed
qed

theorem jid_namespace_witness:
  "add_job (demo_pipeline [[''sleep'', ''5'']] True) (initial 1 1 0 []) =
     Ret 0 ((initial 1 1 0 [])\<lparr>heap := (heap (initial 1 1 0 []))(0 \<mapsto> (fresh_job (demo_pipeline [[''sleep'', ''5'']] True))\<lparr>jid := 1\<rparr>),
                     next_free := 1,
                     job_list := [0],
                     jid2job := (jid2job (initial 1 1 0 []))(1 \<mapsto> 0)\<rparr>)
   \<and> get_job_from_jid 1 ((initial 1 1 0 [])\<lparr>heap := (heap (initial 1 1 0 []))(0 \<mapsto> (fresh_job (demo_pipeline [[''sleep'', ''5'']] True))\<lparr>jid := 1\<rparr>),
                     next_free := 1,
                     job_list := [0],
                     jid2job := (jid2job (initial 1 1 0 []))(1 \<mapsto> 0)\<rparr>) = Some 0
   \<and> get_job_from_jid 0 ((initial 1 1 0 [])\<lparr>jid2job := (\<lambda>i. Some 7)\<rparr>) = None
   \<and> get_job_from_jid (- 3) ((initial 1 1 0 [])\<lparr>jid2job := (\<lambda>i. Some 7)\<rparr>) = None
   \<and> get_job_from_jid 65536 ((initial 1 1 0 [])\<lparr>jid2job := (\<lambda>i. Some 7)\<rparr>) = None
   \<and> get_job_from_jid 65535 ((initial 1 1 0 [])\<lparr>jid2job := (\<lambda>i. Some 7)\<rparr>) = Some 7"
proof -
  let ?P = "demo_pipeline [[''sleep'', ''5'']] True"
  let ?E = "initial 1 1 0 []"
  let ?S = "?E\<lparr>heap := (heap ?E)(0 \<mapsto> (fresh_job ?P)\<lparr>jid := 1\<rparr>),
                     next_free := 1, job_list := [0], jid2job := (jid2job ?E)(1 \<mapsto> 0)\<rparr>"
  let ?F = "?E\<lparr>jid2job := (\<lambda>i. Some 7)\<rparr>"
  have f: "first_free_jid (\<lambda>i. None) 1 = Some 1"
    by (subst first_free_jid.simps) (simp add: MAXJOBS_def)
  have r: "add_job ?P ?E = Ret 0 ?S"
    by (simp add: add_job_def Let_def initial_def f)
  from jid_namespace[where p="?P" and st="?E" and a=0 and st'="?S"] r
  have "\<exists>j. heap ?S 0 = Some j \<and> 1 \<le> jid j \<and> jid j \<le> 65535
              \<and> get_job_from_jid (jid j) ?S = Some 0" by blast
  then have g: "get_job_from_jid 1 ?S = Some 0" by (simp add: fresh_job_def)
  from jid_namespace[where i=0 and st="?F"] have a: "get_job_from_jid 0 ?F = None" by simp
  from jid_namespace[where i="- 3" and st="?F"] have b: "get_job_from_jid (- 3) ?F = None" by simp
  from jid_namespace[where i=65536 and st="?F"] have c: "get_job_from_jid 65536 ?F = None" by simp
  from jid_namespace[where i=65535 and st="?F"] have d: "get_job_from_jid 65535 ?F = Some 7" by simp
  from r g a b c d show ?thesis by simp
qed


section \<open>The status reaper\<close>

lemma scan_procs_Some:
  "scan_procs p xs k = Some i \<Longrightarrow> k \<le> i \<and> i - k < length xs \<and> pid (xs ! (i - k)) = p"
proof (induction xs arbitrary: k)
  case Nil
  then show ?case by simp
next
  case (Cons x xs)
  show ?case
  proof (cases "pid x = p")
    case True
    with Cons.prems show ?thesis by simp
  next
    case False
    with Cons.prems have "scan_procs p xs (Suc k) = Some i" by simp
    from Cons.IH[OF this] have "Suc k \<le> i \<and> i - Suc k < length xs \<and> pid (xs ! (i - Suc k)) = p" .
    then show ?thesis by (auto simp: nth_Cons' Suc_diff_le)
  qed
qed

lemma find_pid_from_Some:
  "find_pid_from p as st = Ret (Some (a, i)) s \<Longrightarrow>
     s = st \<and> a \<in> set as
     \<and> (\<exists>j. heap st a = Some j \<and> i < length (live_procs j) \<and> pid (live_procs j ! i) = p)"
proof (induction as)
  case Nil
  then show ?case by simp
next
  case (Cons b bs)
  from Cons.prems obtain jb where jb: "heap st b = Some jb"
    by (auto split: option.splits)
  show ?case
  proof (cases "scan_procs p (live_procs jb) 0")
    case None
    with Cons.prems jb have "find_pid_from p bs st = Ret (Some (a, i)) s" by simp
    from Cons.IH[OF this] show ?thesis by auto
  next
    case (Some k)
    with Cons.prems jb have e: "a = b" "i = k" "s = st" by simp_all
    from scan_procs_Some[OF Some] e jb show ?thesis by auto
  qed
qed

lemma find_pid_Some:
  "find_pid p st = Ret (Some (a, i)) s \<Longrightarrow>
     s = st \<and> a \<in> set (job_list st)
     \<and> (\<exists>j. heap st a = Some j \<and> i < length (live_procs j) \<and> pid (live_procs j ! i) = p)"
  unfolding find_pid_def by (rule find_pid_from_Some)


text \<open>
  Claim C4, as amended.  When a process is reported stopped by \<open>SIGTTIN\<close> or \<open>SIGTTOU\<close>
  and its job is in the foreground, the reaper gives the terminal to the job's process
  group and sends the group \<open>SIGCONT\<close>, and changes nothing else: the heap (so the
  recorded state of the process, whether \<open>PSTAT_RUNNING\<close> or \<open>PSTAT_STOPPED\<close>, the status
  of the job and its process array), the job list and the id table stay as they were, and
  the trace gains no output.
\<close>

theorem tty_stop_of_foreground:
  assumes "find_pid p st = Ret (Some (a, i)) st"
    and "heap st a = Some j"
    and "status j = FOREGROUND"
    and "sig = SIGTTIN \<or> sig = SIGTTOU"
  shows "handle_child_status p (WStopped sig) st =
           Ret () (st\<lparr>tty := saved_tty_state j, term_owner := pgid j,
                      trace := trace st @ [TermGive (pgid j), Kill (- pgid j) SIGCONT]\<rparr>)"
  using assms
  by (auto simp: handle_child_status_def handle_stopped_child_def WIFSTOPPED_def WSTOPSIG_def
      termstate_give_terminal_to_def emit_def)

theorem tty_stop_of_foreground_witness:
  "find_pid 100 (demo_shell FOREGROUND []) = Ret (Some (0, 0)) (demo_shell FOREGROUND [])
   \<and> heap (demo_shell FOREGROUND []) 0 = Some (demo_job FOREGROUND)
   \<and> status (demo_job FOREGROUND) = FOREGROUND
   \<and> handle_child_status 100 (WStopped SIGTTIN) (demo_shell FOREGROUND []) =
       Ret () ((demo_shell FOREGROUND [])\<lparr>tty := 0, term_owner := 100,
                  trace := [TermGive 100, Kill (- 100) SIGCONT]\<rparr>)
   \<and> find_pid 100 resumed_shell = Ret (Some (0, 0)) resumed_shell
   \<and> heap resumed_shell 0 = Some resumed_job
   \<and> status resumed_job = FOREGROUND
   \<and> map pstatus (live_procs resumed_job) = [PSTAT_STOPPED]
   \<and> handle_child_status 100 (WStopped SIGTTOU) resumed_shell =
       Ret () (resumed_shell\<lparr>trace := trace resumed_shell
                                        @ [TermGive 100, Kill (- 100) SIGCONT]\<rparr>)"
proof -
  let ?S = "demo_shell FOREGROUND []"
  have f: "find_pid 100 ?S = Ret (Some (0, 0)) ?S"
    by (simp add: find_pid_def demo_shell_def demo_job_def live_procs_def)
  have h: "heap ?S 0 = Some (demo_job FOREGROUND)" by (simp add: demo_shell_def)
  have s: "status (demo_job FOREGROUND) = FOREGROUND" by (simp add: demo_job_def)
  from tty_stop_of_foreground[OF f h s, of SIGTTIN]
  have "handle_child_status 100 (WStopped SIGTTIN) ?S =
       Ret () (?S\<lparr>tty := saved_tty_state (demo_job FOREGROUND),
                  term_owner := pgid (demo_job FOREGROUND),
                  trace := trace ?S @ [TermGive (pgid (demo_job FOREGROUND)),
                                       Kill (- pgid (demo_job FOREGROUND)) SIGCONT]\<rparr>)"
    by simp
  then have "handle_child_status 100 (WStopped SIGTTIN) ?S =
       Ret () (?S\<lparr>tty := 0, term_owner := 100, trace := [TermGive 100, Kill (- 100) SIGCONT]\<rparr>)"
    by (simp add: demo_job_def demo_shell_def)
  note c1 = this
  have f2: "find_pid 100 resumed_shell = Ret (Some (0, 0)) resumed_shell"
    by (simp add: find_pid_def resumed_shell_def resumed_job_def demo_shell_def demo_job_def
        live_procs_def)
  have h2: "heap resumed_shell 0 = Some resumed_job" by (simp add: resumed_shell_def)
  have s2: "status resumed_job = FOREGROUND" by (simp add: resumed_job_def demo_job_def)
  have p2: "map pstatus (live_procs resumed_job) = [PSTAT_STOPPED]"
    by (simp add: resumed_job_def demo_job_def live_procs_def)
  from tty_stop_of_foreground[OF f2 h2 s2, of SIGTTOU]
  have "handle_child_status 100 (WStopped SIGTTOU) resumed_shell =
       Ret () (resumed_shell\<lparr>tty := saved_tty_state resumed_job, term_owner := pgid resumed_job,
                  trace := trace resumed_shell @ [TermGive (pgid resumed_job),
                                                  Kill (- pgid resumed_job) SIGCONT]\<rparr>)"
    by simp
  then have c2: "handle_child_status 100 (WStopped SIGTTOU) resumed_shell =
       Ret () (resumed_shell\<lparr>trace := trace resumed_shell
                                        @ [TermGive 100, Kill (- 100) SIGCONT]\<rparr>)"
    by (simp add: resumed_job_def demo_job_def resumed_shell_def demo_shell_def)
  from f h s c1 f2 h2 s2 p2 c2 show ?thesis by (intro conjI)
qed


text \<open>
  Claim C4, as stated, fails where it says that the recorded state of the process stays
  \<open>PSTAT_RUNNING\<close>: the source sets \<open>PSTAT_RUNNING\<close> only when a process is spawned.
  After \<open>sleep 5\<close> has been stopped by \<open>SIGSTOP\<close> and resumed with \<open>fg 1\<close>, the job is in
  the foreground with its process recorded as \<open>PSTAT_STOPPED\<close>; a stop by \<open>SIGTTIN\<close>
  reported then leaves the record \<open>PSTAT_STOPPED\<close>.
\<close>

theorem tty_stop_counterexample:
  "shell_loop [fg_sleep, fg_first] (initial 1 1 0 [(100, WStopped SIGSTOP)]) =
     Halt Blocked resumed_shell
   \<and> map_option status (heap resumed_shell 0) = Some FOREGROUND
   \<and> map_option (map pstatus \<circ> live_procs) (heap resumed_shell 0) = Some [PSTAT_STOPPED]
   \<and> handle_child_status 100 (WStopped SIGTTIN) resumed_shell =
       Ret () (resumed_shell\<lparr>trace := trace resumed_shell @ [TermGive 100, Kill (- 100) SIGCONT]\<rparr>)
   \<and> map_option (map pstatus \<circ> live_procs)
        (heap (resumed_shell\<lparr>trace := trace resumed_shell @ [TermGive 100, Kill (- 100) SIGCONT]\<rparr>) 0)
       = Some [PSTAT_STOPPED]"
proof (intro conjI)
  show "shell_loop [fg_sleep, fg_first] (initial 1 1 0 [(100, WStopped SIGSTOP)]) =
     Halt Blocked resumed_shell"
    by (simp add: run_defs fg_sleep_def fg_first_def first_free_empty atoi_1 show_int_1
        fg_builtin_def get_job_from_jid_def MAXJOBS_def wait_for_job.simps
        handle_child_status_def find_pid_def live_procs_def WIFSTOPPED_def WSTOPSIG_def
        handle_stopped_child_def all_procs_stopped_def print_job_def print_cmdline_def
        get_status_def SIGSTOP_def SIGTTIN_def SIGTTOU_def SIGCONT_def
        resumed_shell_def resumed_job_def demo_shell_def demo_job_def)
  show "map_option status (heap resumed_shell 0) = Some FOREGROUND"
    by (simp add: resumed_shell_def resumed_job_def demo_job_def)
  show "map_option (map pstatus \<circ> live_procs) (heap resumed_shell 0) = Some [PSTAT_STOPPED]"
    by (simp add: resumed_shell_def resumed_job_def demo_job_def live_procs_def)
  show "handle_child_status 100 (WStopped SIGTTIN) resumed_shell =
       Ret () (resumed_shell\<lparr>trace := trace resumed_shell @ [TermGive 100, Kill (- 100) SIGCONT]\<rparr>)"
    by (simp add: handle_child_status_def find_pid_def live_procs_def WIFSTOPPED_def WSTOPSIG_def
        handle_stopped_child_def termstate_give_terminal_to_def emit_def
        resumed_shell_def resumed_job_def demo_shell_def demo_job_def)
  show "map_option (map pstatus \<circ> live_procs)
        (heap (resumed_shell\<lparr>trace := trace resumed_shell @ [TermGive 100, Kill (- 100) SIGCONT]\<rparr>) 0)
       = Some [PSTAT_STOPPED]"
    by (simp add: resumed_shell_def resumed_job_def demo_job_def live_procs_def)
qed


text \<open>
  Claim C2.  When the reaper sees the last live process of a job terminate: for a job in
  the foreground it samples the terminal mode exactly when the process exited with status
  0, marks the job \<open>TERMINATED\<close> and leaves the job list and the id table as they were;
  for a job with any other status it takes the job out of the list and of the table and
  frees it.
\<close>

theorem last_process_terminated:
  assumes f: "find_pid p st = Ret (Some (a, i)) st"
    and h: "heap st a = Some j"
    and n: "num_processes_alive j = 1"
    and w: "WIFEXITED ws \<or> WIFSIGNALED ws"
  shows "(status j = FOREGROUND \<longrightarrow>
            handle_child_status p ws st =
              Ret () (st\<lparr>heap := (heap st)(a \<mapsto> j\<lparr>procs := memmove_down (procs j) 0 0,
                                                   num_processes_alive := 0,
                                                   status := TERMINATED\<rparr>),
                         shell_tty := (if ws = WExited 0 then tty st else shell_tty st),
                         trace := trace st
                                  @ (if WIFSIGNALED ws then [Strsignal (WTERMSIG ws)] else [])
                                  @ (if ws = WExited 0 then [TermSample] else [])\<rparr>))
       \<and> (status j \<noteq> FOREGROUND \<and> distinct (job_list st) \<and> jid2job st (jid j) = Some a
            \<and> 0 < jid j \<and> jid j < MAXJOBS \<longrightarrow>
            (\<exists>st'. handle_child_status p ws st = Ret () st'
                  \<and> job_list st' = remove1 a (job_list st) \<and> a \<notin> set (job_list st')
                  \<and> jid2job st' = (jid2job st)(jid j := None)
                  \<and> get_job_from_jid (jid j) st' = None
                  \<and> heap st' = (heap st)(a := None)))"
proof -
  from find_pid_Some[OF f] h have a: "a \<in> set (job_list st)" and i: "i < length (live_procs j)"
    by auto
  from i n have i0: "i = 0" by (simp add: live_procs_def)
  from w have ns: "\<not> WIFSTOPPED ws"
    by (auto simp: WIFSTOPPED_def WIFEXITED_def WIFSIGNALED_def split: wstatus.splits)
  have ex0: "(WIFEXITED ws \<and> WEXITSTATUS ws = 0) = (ws = WExited 0)"
    by (auto simp: WIFEXITED_def WEXITSTATUS_def split: wstatus.splits)
  have hcs: "handle_child_status p ws st = handle_terminated_child p ws a 0 st"
    using f w ns i0 by (simp add: handle_child_status_def)
  show ?thesis
  proof (intro conjI impI)
    assume "status j = FOREGROUND"
    then show "handle_child_status p ws st =
              Ret () (st\<lparr>heap := (heap st)(a \<mapsto> j\<lparr>procs := memmove_down (procs j) 0 0,
                                                   num_processes_alive := 0,
                                                   status := TERMINATED\<rparr>),
                         shell_tty := (if ws = WExited 0 then tty st else shell_tty st),
                         trace := trace st
                                  @ (if WIFSIGNALED ws then [Strsignal (WTERMSIG ws)] else [])
                                  @ (if ws = WExited 0 then [TermSample] else [])\<rparr>)"
      unfolding hcs using h n ex0
      by (simp add: handle_terminated_child_def Let_def store_def emit_def termstate_sample_def)
  next
    assume c: "status j \<noteq> FOREGROUND \<and> distinct (job_list st) \<and> jid2job st (jid j) = Some a
            \<and> 0 < jid j \<and> jid j < MAXJOBS"
    then have jn: "jid j \<noteq> - 1" by auto
    show "\<exists>st'. handle_child_status p ws st = Ret () st'
                  \<and> job_list st' = remove1 a (job_list st) \<and> a \<notin> set (job_list st')
                  \<and> jid2job st' = (jid2job st)(jid j := None)
                  \<and> get_job_from_jid (jid j) st' = None
                  \<and> heap st' = (heap st)(a := None)"
      unfolding hcs using h n c a jn
      by (simp add: handle_terminated_child_def Let_def store_def emit_def discard_job_def
          list_remove_def delete_job_def get_job_from_jid_def)
  qed
qed


theorem last_process_terminated_witness:
  "handle_child_status 100 (WExited 0) (demo_shell FOREGROUND []) =
     Ret () ((demo_shell FOREGROUND [])
              \<lparr>heap := (heap (demo_shell FOREGROUND []))
                         (0 \<mapsto> (demo_job FOREGROUND)\<lparr>num_processes_alive := 0,
                                                       status := TERMINATED\<rparr>),
               trace := [TermSample]\<rparr>)
   \<and> handle_child_status 100 (WExited 1) (demo_shell FOREGROUND []) =
     Ret () ((demo_shell FOREGROUND [])
              \<lparr>heap := (heap (demo_shell FOREGROUND []))
                         (0 \<mapsto> (demo_job FOREGROUND)\<lparr>num_processes_alive := 0,
                                                       status := TERMINATED\<rparr>)\<rparr>)
   \<and> (\<exists>st'. handle_child_status 100 (WSignaled 9) (demo_shell BACKGROUND []) = Ret () st'
           \<and> job_list st' = [] \<and> jid2job st' 1 = None \<and> heap st' 0 = None)"
proof -
  let ?F = "demo_shell FOREGROUND []"
  let ?B = "demo_shell BACKGROUND []"
  have fF: "find_pid 100 ?F = Ret (Some (0, 0)) ?F"
    by (simp add: find_pid_def demo_shell_def demo_job_def live_procs_def)
  have hF: "heap ?F 0 = Some (demo_job FOREGROUND)" by (simp add: demo_shell_def)
  have fB: "find_pid 100 ?B = Ret (Some (0, 0)) ?B"
    by (simp add: find_pid_def demo_shell_def demo_job_def live_procs_def)
  have hB: "heap ?B 0 = Some (demo_job BACKGROUND)" by (simp add: demo_shell_def)
  have n: "num_processes_alive (demo_job s) = 1" for s by (simp add: demo_job_def)
  have m: "memmove_down (procs (demo_job s)) 0 0 = procs (demo_job s)" for s
    by (simp add: memmove_down_def)
  have w0: "WIFEXITED (WExited 0) \<or> WIFSIGNALED (WExited 0)" by (simp add: WIFEXITED_def)
  have w1: "WIFEXITED (WExited 1) \<or> WIFSIGNALED (WExited 1)" by (simp add: WIFEXITED_def)
  have w9: "WIFEXITED (WSignaled 9) \<or> WIFSIGNALED (WSignaled 9)" by (simp add: WIFSIGNALED_def)
  have sF: "status (demo_job FOREGROUND) = FOREGROUND" by (simp add: demo_job_def)
  have c0: "handle_child_status 100 (WExited 0) ?F =
     Ret () (?F\<lparr>heap := (heap ?F)(0 \<mapsto> (demo_job FOREGROUND)\<lparr>num_processes_alive := 0,
                                                       status := TERMINATED\<rparr>),
               trace := [TermSample]\<rparr>)"
    using last_process_terminated[OF fF hF n w0] sF
    by (simp add: m WIFSIGNALED_def demo_shell_def)
  have c1: "handle_child_status 100 (WExited 1) ?F =
     Ret () (?F\<lparr>heap := (heap ?F)(0 \<mapsto> (demo_job FOREGROUND)\<lparr>num_processes_alive := 0,
                                                       status := TERMINATED\<rparr>)\<rparr>)"
    using last_process_terminated[OF fF hF n w1] sF
    by (simp add: m WIFSIGNALED_def demo_shell_def)
  have pre: "status (demo_job BACKGROUND) \<noteq> FOREGROUND \<and> distinct (job_list ?B)
     \<and> jid2job ?B (jid (demo_job BACKGROUND)) = Some 0
     \<and> 0 < jid (demo_job BACKGROUND) \<and> jid (demo_job BACKGROUND) < MAXJOBS"
    by (simp add: demo_job_def demo_shell_def MAXJOBS_def)
  from last_process_terminated[OF fB hB n w9] pre
  obtain st' where "handle_child_status 100 (WSignaled 9) ?B = Ret () st'"
    "job_list st' = remove1 0 (job_list ?B)"
    "jid2job st' = (jid2job ?B)(jid (demo_job BACKGROUND) := None)"
    "heap st' = (heap ?B)(0 := None)"
    by blast
  then have c9: "\<exists>st'. handle_child_status 100 (WSignaled 9) ?B = Ret () st'
           \<and> job_list st' = [] \<and> jid2job st' 1 = None \<and> heap st' 0 = None"
    by (simp add: demo_shell_def demo_job_def)
  from c0 c1 c9 show ?thesis by simp
qed


lemma find_pid_from_Halt: "find_pid_from p as st = Halt h s \<Longrightarrow> h = Fault"
  by (induction as) (auto split: option.splits)

lemma handle_child_status_Halt:
  "handle_child_status p ws st = Halt h s \<Longrightarrow> h = Fault \<or> h = Abort \<or> h = Exit 1"
  by (auto simp: handle_child_status_def handle_stopped_child_def handle_terminated_child_def
      discard_job_def list_remove_def delete_job_def Let_def find_pid_def termstate_save_def
      split: option.splits if_splits outcome.splits prod.splits dest: find_pid_from_Halt)

lemma sigchld_loop_Halt:
  "sigchld_loop st = Halt h s \<Longrightarrow> h = Fault \<or> h = Abort \<or> h = Exit 1"
proof (induction st rule: sigchld_loop.induct)
  case (1 st)
  show ?case
  proof (cases "pending st")
    case Nil
    with "1.prems" show ?thesis by (subst (asm) sigchld_loop.simps) simp
  next
    case (Cons x rest)
    obtain c ws where x: "x = (c, ws)" by (cases x)
    show ?thesis
    proof (cases "c > 0")
      case False
      with "1.prems" Cons x show ?thesis by (subst (asm) sigchld_loop.simps) simp
    next
      case True
      show ?thesis
      proof (cases "handle_child_status c ws (st\<lparr>pending := rest\<rparr>)")
        case (Ret u st1)
        with "1.prems" Cons x True have "sigchld_loop st1 = Halt h s"
          by (subst (asm) sigchld_loop.simps) simp
        with "1.IH"[OF Cons x[symmetric] True Ret] show ?thesis by simp
      next
        case (Halt h' s')
        with "1.prems" Cons x True have "h' = h"
          by (subst (asm) sigchld_loop.simps) simp
        with handle_child_status_Halt[OF Halt] show ?thesis by simp
      qed
    qed
  qed
qed


text \<open>
  Claim C10.  The handler for \<open>SIGCHLD\<close> takes the pending status changes one after the
  other without blocking and stops, changing nothing and printing nothing, as soon as
  \<open>waitpid\<close> returns a value that is not positive (a failure included); it never ends
  blocked or in the fatal error.  \<open>wait_for_job\<close>, waiting for a foreground job with live
  processes, ends in the fatal error when \<open>waitpid\<close> fails.
\<close>

theorem sigchld_handler_and_wait_for_job:
  "(pending st = [] \<longrightarrow> sigchld_handler SIGCHLD st = Ret () st)
   \<and> (pending st = (c, ws) # rest \<and> c \<le> 0 \<longrightarrow>
        sigchld_handler SIGCHLD st = Ret () (st\<lparr>pending := rest\<rparr>))
   \<and> (pending st = (c, ws) # rest \<and> 0 < c \<longrightarrow>
        sigchld_handler SIGCHLD st =
          (case handle_child_status c ws (st\<lparr>pending := rest\<rparr>) of
             Ret u st1 \<Rightarrow> sigchld_handler SIGCHLD st1
           | Halt h s \<Rightarrow> Halt h s))
   \<and> sigchld_handler SIGCHLD st \<noteq> Halt Blocked s'
   \<and> sigchld_handler SIGCHLD st \<noteq> Halt Fatal s'
   \<and> (heap st a = Some j \<and> status j = FOREGROUND \<and> 0 < num_processes_alive j \<longrightarrow>
        (pending st = (- 1, ws) # rest \<longrightarrow>
           wait_for_job a st =
             Halt Fatal (emit (Stderr ''waitpid failed, see code for explanation'')
                           (st\<lparr>pending := rest\<rparr>)))
        \<and> (pending st = [] \<longrightarrow> wait_for_job a st = Halt Blocked st))"
proof (intro conjI impI)
  assume "pending st = []"
  then show "sigchld_handler SIGCHLD st = Ret () st"
    by (simp add: sigchld_handler_def sigchld_loop.simps[of st])
next
  assume "pending st = (c, ws) # rest \<and> c \<le> 0"
  then show "sigchld_handler SIGCHLD st = Ret () (st\<lparr>pending := rest\<rparr>)"
    by (simp add: sigchld_handler_def sigchld_loop.simps[of st])
next
  assume "pending st = (c, ws) # rest \<and> 0 < c"
  then show "sigchld_handler SIGCHLD st =
          (case handle_child_status c ws (st\<lparr>pending := rest\<rparr>) of
             Ret u st1 \<Rightarrow> sigchld_handler SIGCHLD st1
           | Halt h s \<Rightarrow> Halt h s)"
    by (simp add: sigchld_handler_def sigchld_loop.simps[of st] split: outcome.splits)
next
  show "sigchld_handler SIGCHLD st \<noteq> Halt Blocked s'"
    using sigchld_loop_Halt[of st Blocked s'] by (auto simp: sigchld_handler_def)
next
  show "sigchld_handler SIGCHLD st \<noteq> Halt Fatal s'"
    using sigchld_loop_Halt[of st Fatal s'] by (auto simp: sigchld_handler_def)
next
  assume "heap st a = Some j \<and> status j = FOREGROUND \<and> 0 < num_processes_alive j"
    and "pending st = (- 1, ws) # rest"
  then show "wait_for_job a st =
             Halt Fatal (emit (Stderr ''waitpid failed, see code for explanation'')
                           (st\<lparr>pending := rest\<rparr>))"
    by (simp add: wait_for_job.simps[of a st])
next
  assume "heap st a = Some j \<and> status j = FOREGROUND \<and> 0 < num_processes_alive j"
    and "pending st = []"
  then show "wait_for_job a st = Halt Blocked st"
    by (simp add: wait_for_job.simps[of a st])
qed

theorem sigchld_handler_and_wait_for_job_witness:
  "sigchld_handler SIGCHLD (demo_shell FOREGROUND [(- 1, WContinued)]) =
     Ret () (demo_shell FOREGROUND [])
   \<and> wait_for_job 0 (demo_shell FOREGROUND [(- 1, WContinued)]) =
       Halt Fatal (emit (Stderr ''waitpid failed, see code for explanation'')
                     (demo_shell FOREGROUND []))
   \<and> sigchld_handler SIGCHLD (demo_shell BACKGROUND [(100, WExited 0), (0, WContinued)]) =
       sigchld_handler SIGCHLD ((demo_shell BACKGROUND [(0, WContinued)])
           \<lparr>heap := (\<lambda>a. None), job_list := [], jid2job := (\<lambda>i. None)\<rparr>)
   \<and> sigchld_handler SIGCHLD ((demo_shell BACKGROUND [(0, WContinued)])
           \<lparr>heap := (\<lambda>a. None), job_list := [], jid2job := (\<lambda>i. None)\<rparr>) =
       Ret () ((demo_shell BACKGROUND [])
           \<lparr>heap := (\<lambda>a. None), job_list := [], jid2job := (\<lambda>i. None)\<rparr>)"
proof -
  let ?F = "demo_shell FOREGROUND [(- 1, WContinued)]"
  let ?B = "demo_shell BACKGROUND [(100, WExited 0), (0, WContinued)]"
  let ?B1 = "(demo_shell BACKGROUND [(0, WContinued)])
           \<lparr>heap := (\<lambda>a. None), job_list := [], jid2job := (\<lambda>i. None)\<rparr>"
  note T = sigchld_handler_and_wait_for_job
  have pF: "pending ?F = (- 1, WContinued) # [] \<and> - 1 \<le> (0::int)" by (simp add: demo_shell_def)
  have e: "?F\<lparr>pending := []\<rparr> = demo_shell FOREGROUND []" by (simp add: demo_shell_def)
  from T[where st="?F" and c="- 1" and ws=WContinued and rest="[]"] pF e
  have c1: "sigchld_handler SIGCHLD ?F = Ret () (demo_shell FOREGROUND [])" by simp
  have hF: "heap ?F 0 = Some (demo_job FOREGROUND) \<and> status (demo_job FOREGROUND) = FOREGROUND
     \<and> 0 < num_processes_alive (demo_job FOREGROUND)"
    by (simp add: demo_shell_def demo_job_def)
  from T[where st="?F" and a=0 and j="demo_job FOREGROUND" and ws=WContinued and rest="[]"] hF pF e
  have c2: "wait_for_job 0 ?F =
       Halt Fatal (emit (Stderr ''waitpid failed, see code for explanation'')
                     (demo_shell FOREGROUND []))" by simp
  have pB: "pending ?B = (100, WExited 0) # [(0, WContinued)] \<and> (0::int) < 100"
    by (simp add: demo_shell_def)
  have hB: "handle_child_status 100 (WExited 0) (?B\<lparr>pending := [(0, WContinued)]\<rparr>) = Ret () ?B1"
    by (simp add: handle_child_status_def find_pid_def demo_shell_def demo_job_def live_procs_def
        WIFSTOPPED_def WIFEXITED_def WIFSIGNALED_def handle_terminated_child_def Let_def
        store_def discard_job_def list_remove_def delete_job_def MAXJOBS_def memmove_down_def)
  from T[where st="?B" and c=100 and ws="WExited 0" and rest="[(0, WContinued)]"] pB hB
  have c3: "sigchld_handler SIGCHLD ?B = sigchld_handler SIGCHLD ?B1" by simp
  have pB1: "pending ?B1 = (0, WContinued) # [] \<and> (0::int) \<le> 0" by (simp add: demo_shell_def)
  have e1: "?B1\<lparr>pending := []\<rparr> = (demo_shell BACKGROUND [])
           \<lparr>heap := (\<lambda>a. None), job_list := [], jid2job := (\<lambda>i. None)\<rparr>"
    by (simp add: demo_shell_def)
  from T[where st="?B1" and c=0 and ws=WContinued and rest="[]"] pB1 e1
  have c4: "sigchld_handler SIGCHLD ?B1 = Ret () ((demo_shell BACKGROUND [])
           \<lparr>heap := (\<lambda>a. None), job_list := [], jid2job := (\<lambda>i. None)\<rparr>)" by simp
  from c1 c2 c3 c4 show ?thesis by simp
qed


section \<open>Spawning a pipeline\<close>

lemma run_command_enoent:
  assumes "external c" and "is_last \<or> 0 \<le> pipe2_rc ans" and "spawn_rc ans = ENOENT"
  shows "run_command p ans is_last c job pgrp st = Ret (job, pgrp) (emit (not_found c) st)"
proof -
  from assms(1) obtain a0 args where a: "argv c = a0 # args" and nb: "\<not> is_builtin a0"
    by (auto simp: external_def split: list.splits)
  from nb have "a0 \<noteq> ''exit''" "a0 \<noteq> ''jobs''" "a0 \<noteq> ''kill''" "a0 \<noteq> ''bg''"
    "a0 \<noteq> ''fg''" "a0 \<noteq> ''stop''" "a0 \<noteq> ''history''" "a0 \<noteq> ''cd''"
    by (auto simp: is_builtin_def)
  with a assms(2,3) show ?thesis
    by (auto simp: run_command_def spawn_command_def not_found_def)
qed

lemma run_commands_enoent:
  assumes "\<forall>c \<in> set cs. external c"
    and "\<forall>k. i \<le> k \<and> k < i + length cs \<longrightarrow>
            spawn_rc (sys k) = ENOENT \<and> (Suc k < i + length cs \<longrightarrow> 0 \<le> pipe2_rc (sys k))"
  shows "run_commands p sys i cs job pgrp st =
           Ret (job, pgrp) (st\<lparr>trace := trace st @ map not_found cs\<rparr>)"
  using assms
proof (induction cs arbitrary: i st)
  case Nil
  then show ?case by simp
next
  case (Cons c cs)
  from Cons.prems(1) have e: "external c" by simp
  from Cons.prems(2)[rule_format, of i]
  have s: "spawn_rc (sys i) = ENOENT" and pp: "cs \<noteq> [] \<longrightarrow> 0 \<le> pipe2_rc (sys i)"
    by auto
  from pp have l: "(cs = []) \<or> 0 \<le> pipe2_rc (sys i)" by blast
  have ih: "run_commands p sys (Suc i) cs job pgrp (emit (not_found c) st) =
           Ret (job, pgrp) ((emit (not_found c) st)\<lparr>trace := trace (emit (not_found c) st) @ map not_found cs\<rparr>)"
  proof (rule Cons.IH)
    show "\<forall>c\<in>set cs. external c" using Cons.prems(1) by simp
    show "\<forall>k. Suc i \<le> k \<and> k < Suc i + length cs \<longrightarrow>
        spawn_rc (sys k) = ENOENT \<and> (Suc k < Suc i + length cs \<longrightarrow> 0 \<le> pipe2_rc (sys k))"
      using Cons.prems(2) by auto
  qed
  show ?case
    by (simp add: run_command_enoent[OF e l s] ih cd_written_other[OF external_not_cd[OF e]]
        cd_written_job_other[OF external_not_cd[OF e]]) (simp add: emit_def)
qed


text \<open>
  Claim C8.  A command that is not a builtin and whose spawn fails with \<open>ENOENT\<close> only
  prints the message that the program was not found: the loop goes on with the same job
  pointer and process group.  A pipeline of such commands returns with the heap, the job
  list and the id table as they were, so no job has been created.
\<close>

theorem program_not_found:
  "(external c \<and> (is_last \<or> 0 \<le> pipe2_rc ans) \<and> spawn_rc ans = ENOENT \<longrightarrow>
      run_command p ans is_last c job pgrp st = Ret (job, pgrp) (emit (not_found c) st))
   \<and> ((\<forall>c \<in> set (commands p). external c)
        \<and> (\<forall>k. k < length (commands p) \<longrightarrow>
               spawn_rc (sys k) = ENOENT
               \<and> (Suc k < length (commands p) \<longrightarrow> 0 \<le> pipe2_rc (sys k))) \<longrightarrow>
      run_pipeline (p, sys) st =
        Ret () (st\<lparr>trace := trace st @ map not_found (commands p)\<rparr>))"
proof (intro conjI impI)
  assume "external c \<and> (is_last \<or> 0 \<le> pipe2_rc ans) \<and> spawn_rc ans = ENOENT"
  then show "run_command p ans is_last c job pgrp st = Ret (job, pgrp) (emit (not_found c) st)"
    by (simp add: run_command_enoent)
next
  assume a: "(\<forall>c \<in> set (commands p). external c)
        \<and> (\<forall>k. k < length (commands p) \<longrightarrow>
               spawn_rc (sys k) = ENOENT
               \<and> (Suc k < length (commands p) \<longrightarrow> 0 \<le> pipe2_rc (sys k)))"
  have "run_commands p sys 0 (commands p) None 0 st =
           Ret (None, 0) (st\<lparr>trace := trace st @ map not_found (commands p)\<rparr>)"
    by (rule run_commands_enoent) (use a in auto)
  then show "run_pipeline (p, sys) st =
        Ret () (st\<lparr>trace := trace st @ map not_found (commands p)\<rparr>)"
    by (simp add: run_pipeline_def)
qed

theorem program_not_found_witness:
  "run_command (demo_pipeline [[''ls''], [''missing'']] True)
       \<lparr>pipe2_rc = 0, spawn_rc = ENOENT, spawn_pid = 0\<rparr> True
       \<lparr>argv = [''missing''], dup_stderr_to_stdout = False\<rparr> (Some 0) 100
       (demo_shell BACKGROUND []) =
     Ret (Some 0, 100)
       ((demo_shell BACKGROUND [])
          \<lparr>trace := [Stdout (''missing: No such file or directory'' @ nl)]\<rparr>)
   \<and> run_pipeline (demo_pipeline [[''nosuch'', ''-x''], [''missing'']] False,
                 \<lambda>k. \<lparr>pipe2_rc = 0, spawn_rc = ENOENT, spawn_pid = 0\<rparr>)
                (demo_shell BACKGROUND []) =
     Ret () ((demo_shell BACKGROUND [])
               \<lparr>trace := [Stdout (''nosuch: No such file or directory'' @ nl),
                          Stdout (''missing: No such file or directory'' @ nl)]\<rparr>)"
proof -
  let ?p = "demo_pipeline [[''nosuch'', ''-x''], [''missing'']] False"
  let ?sys = "\<lambda>k::nat. \<lparr>pipe2_rc = 0, spawn_rc = ENOENT, spawn_pid = 0\<rparr>"
  let ?c = "\<lparr>argv = [''missing''], dup_stderr_to_stdout = False\<rparr>"
  let ?ans = "\<lparr>pipe2_rc = 0, spawn_rc = ENOENT, spawn_pid = 0\<rparr>"
  note T = program_not_found
  have e: "external ?c \<and> (True \<or> 0 \<le> pipe2_rc ?ans) \<and> spawn_rc ?ans = ENOENT"
    by (simp add: external_def is_builtin_def)
  from T[where c="?c" and is_last=True and ans="?ans"] e
  have c1: "run_command (demo_pipeline [[''ls''], [''missing'']] True) ?ans True ?c (Some 0) 100
       (demo_shell BACKGROUND []) =
     Ret (Some 0, 100) (emit (not_found ?c) (demo_shell BACKGROUND []))"
    by blast
  have a: "(\<forall>c \<in> set (commands ?p). external c)
     \<and> (\<forall>k. k < length (commands ?p) \<longrightarrow>
            spawn_rc (?sys k) = ENOENT
            \<and> (Suc k < length (commands ?p) \<longrightarrow> 0 \<le> pipe2_rc (?sys k)))"
    by (simp add: demo_pipeline_def external_def is_builtin_def)
  from T[where p="?p" and sys="?sys" and st="demo_shell BACKGROUND []"] a
  have c2: "run_pipeline (?p, ?sys) (demo_shell BACKGROUND []) =
     Ret () ((demo_shell BACKGROUND [])
               \<lparr>trace := trace (demo_shell BACKGROUND []) @ map not_found (commands ?p)\<rparr>)"
    by blast
  from c1 c2 show ?thesis
    by (simp add: demo_pipeline_def not_found_def demo_shell_def emit_def)
qed


lemma exit_loop_not_Ret: "exit_loop as st \<noteq> Ret v s"
  by (induction as arbitrary: st) (auto split: option.splits outcome.splits)



section \<open>The live-process count\<close>

lemma heap_emit [simp]: "heap (emit e st) = heap st"
  by (simp add: emit_def)

lemma heap_store [simp]: "heap (store a j st) = (heap st)(a \<mapsto> j)"
  by (simp add: store_def)

lemma heap_print_job [simp]: "heap (print_job j st) = heap st"
  by (simp add: print_job_def)

lemma heap_give_terminal_to [simp]: "heap (termstate_give_terminal_to t g st) = heap st"
  by (simp add: termstate_give_terminal_to_def)

lemma heap_give_back [simp]: "heap (termstate_give_terminal_back_to_shell st) = heap st"
  by (simp add: termstate_give_terminal_back_to_shell_def)

lemma heap_sample [simp]: "heap (termstate_sample st) = heap st"
  by (simp add: termstate_sample_def)

lemma count_ok_bounds:
  "count_ok st =
     (\<forall>a j. heap st a = Some j \<longrightarrow>
        0 \<le> num_processes_alive j \<and> num_processes_alive j \<le> int (length (procs j)))"
proof -
  have "(c = int (length (take (nat c) ps))) = (0 \<le> c \<and> c \<le> int (length ps))"
    for c :: int and ps :: "process list"
    by (cases "0 \<le> c") auto
  then show ?thesis by (simp add: count_ok_def live_procs_def)
qed

lemma count_ok_heap: "heap st' = heap st \<Longrightarrow> count_ok st' = count_ok st"
  by (simp add: count_ok_bounds)

lemma count_ok_upd:
  "count_ok st \<Longrightarrow> heap st' = (heap st)(a \<mapsto> j) \<Longrightarrow>
     0 \<le> num_processes_alive j \<Longrightarrow> num_processes_alive j \<le> int (length (procs j)) \<Longrightarrow>
     count_ok st'"
  by (simp add: count_ok_bounds)

lemma count_ok_free: "count_ok st \<Longrightarrow> heap st' = (heap st)(a := None) \<Longrightarrow> count_ok st'"
  by (simp add: count_ok_bounds)

lemma count_okD:
  "count_ok st \<Longrightarrow> heap st a = Some j \<Longrightarrow>
     0 \<le> num_processes_alive j \<and> num_processes_alive j \<le> int (length (procs j))"
  by (simp add: count_ok_bounds)

lemma length_memmove_down: "i + n < length ps \<Longrightarrow> length (memmove_down ps i n) = length ps"
  by (simp add: memmove_down_def)

lemma count_ok_delete_job: "count_ok st \<Longrightarrow> delete_job a st = Ret u st' \<Longrightarrow> count_ok st'"
  by (auto simp: delete_job_def count_ok_bounds split: option.splits if_splits)

lemma count_ok_discard_job:
  assumes "count_ok st" and "discard_job a st = Ret u st'"
  shows "count_ok st'"
proof -
  from assms(2) have d: "delete_job a (st\<lparr>job_list := remove1 a (job_list st)\<rparr>) = Ret u st'"
    by (auto simp: discard_job_def list_remove_def split: option.splits if_splits)
  have "count_ok (st\<lparr>job_list := remove1 a (job_list st)\<rparr>)"
    using assms(1) by (simp add: count_ok_bounds)
  from count_ok_delete_job[OF this d] show ?thesis .
qed

lemma count_ok_handle_stopped_child:
  "count_ok st \<Longrightarrow> handle_stopped_child p ws a i st = Ret u st' \<Longrightarrow> count_ok st'"
  by (auto simp: handle_stopped_child_def Let_def termstate_save_def count_ok_bounds
      split: option.splits if_splits)

lemma count_ok_handle_terminated_child:
  assumes c: "count_ok st" and r: "handle_terminated_child p ws a i st = Ret u st'"
  shows "count_ok st'"
proof -
  from r obtain j where h: "heap st a = Some j"
    by (auto simp: handle_terminated_child_def split: option.splits)
  from count_okD[OF c h] have b: "0 \<le> num_processes_alive j"
    "num_processes_alive j \<le> int (length (procs j))" by simp_all
  let ?st1 = "if WIFSIGNALED ws then emit (Strsignal (WTERMSIG ws)) st else st"
  let ?n = "nat (num_processes_alive j - int i - 1)"
  let ?j1 = "j\<lparr>procs := memmove_down (procs j) i ?n,
               num_processes_alive := num_processes_alive j - 1\<rparr>"
  from r h have g: "\<not> num_processes_alive j - int i - 1 < 0"
    by (auto simp: handle_terminated_child_def Let_def split: if_splits)
  with b have "i + ?n < length (procs j)" by linarith
  then have len: "length (procs ?j1) = length (procs j)"
    by (simp add: length_memmove_down)
  from g b have nn: "0 \<le> num_processes_alive ?j1"
    "num_processes_alive ?j1 \<le> int (length (procs ?j1))"
    unfolding len by simp_all
  have c1: "count_ok ?st1" using c by (simp add: count_ok_bounds)
  have c2: "count_ok (store a ?j1 ?st1)"
    by (rule count_ok_upd[OF c1 _ nn]) simp
  show ?thesis
  proof (cases "num_processes_alive ?j1 = 0")
    case False
    with r h g have "st' = store a ?j1 ?st1"
      by (simp add: handle_terminated_child_def Let_def)
    with c2 show ?thesis by simp
  next
    case True
    show ?thesis
    proof (cases "status j = FOREGROUND")
      case False
      with r h g True have "discard_job a (store a ?j1 ?st1) = Ret u st'"
        by (simp add: handle_terminated_child_def Let_def)
      from count_ok_discard_job[OF c2 this] show ?thesis .
    next
      case fg: True
      let ?st3 = "if WIFEXITED ws \<and> WEXITSTATUS ws = 0 then termstate_sample (store a ?j1 ?st1)
                  else store a ?j1 ?st1"
      from r h g True fg have e: "st' = store a (?j1\<lparr>status := TERMINATED\<rparr>) ?st3"
        by (simp add: handle_terminated_child_def Let_def)
      have c3: "count_ok ?st3" using c2 by (simp add: count_ok_bounds)
      have n3: "0 \<le> num_processes_alive (?j1\<lparr>status := TERMINATED\<rparr>)"
        "num_processes_alive (?j1\<lparr>status := TERMINATED\<rparr>)
           \<le> int (length (procs (?j1\<lparr>status := TERMINATED\<rparr>)))"
        using nn by simp_all
      show ?thesis unfolding e
        by (rule count_ok_upd[OF c3 _ n3]) simp
    qed
  qed
qed

lemma count_ok_handle_child_status:
  "count_ok st \<Longrightarrow> handle_child_status p ws st = Ret u st' \<Longrightarrow> count_ok st'"
  by (auto simp: handle_child_status_def split: outcome.splits option.splits if_splits prod.splits
      dest: count_ok_handle_stopped_child count_ok_handle_terminated_child)


text \<open>Invariants of the two wait loops follow from one step of the reaper.\<close>

lemma wait_for_job_rule:
  assumes "P st" and "wait_for_job a st = Ret u st'"
    and "\<And>c ws s s' j. P s \<Longrightarrow> heap s a = Some j \<Longrightarrow> status j = FOREGROUND
                 \<Longrightarrow> 0 < num_processes_alive j
                 \<Longrightarrow> handle_child_status c ws s = Ret () s' \<Longrightarrow> P s'"
    and "\<And>s r. P s \<Longrightarrow> P (s\<lparr>pending := r\<rparr>)"
  shows "P st' \<and> (\<exists>j. heap st' a = Some j
                      \<and> \<not> (status j = FOREGROUND \<and> 0 < num_processes_alive j))"
  using assms
proof (induction a st rule: wait_for_job.induct)
  case (1 a st)
  note step = "1.prems"(3) and pend = "1.prems"(4)
  from "1.prems"(2) obtain j where h: "heap st a = Some j"
    by (subst (asm) wait_for_job.simps) (auto split: option.splits)
  show ?case
  proof (cases "status j = FOREGROUND \<and> 0 < num_processes_alive j")
    case False
    with "1.prems"(2) h have "st' = st"
      by (subst (asm) wait_for_job.simps) auto
    with "1.prems"(1) h False show ?thesis by auto
  next
    case True
    from "1.prems"(2) h True obtain c ws rest where p: "pending st = (c, ws) # rest"
      by (subst (asm) wait_for_job.simps) (auto split: list.splits)
    from "1.prems"(2) h True p have c: "c \<noteq> - 1"
      by (subst (asm) wait_for_job.simps) (auto split: if_splits)
    from "1.prems"(2) h True p c obtain st1
      where r: "handle_child_status c ws (st\<lparr>pending := rest\<rparr>) = Ret () st1"
        and w: "wait_for_job a st1 = Ret u st'"
      by (subst (asm) wait_for_job.simps) (auto split: outcome.splits)
    from True have t1: "status j = FOREGROUND" and t2: "0 < num_processes_alive j" by simp_all
    have h': "heap (st\<lparr>pending := rest\<rparr>) a = Some j" using h by simp
    have "P st1" by (rule step[OF pend[OF "1.prems"(1)] h' t1 t2 r])
    from "1.IH"[OF h _ p refl c r this w step pend] True show ?thesis by simp
  qed
qed

lemma sigchld_loop_rule:
  assumes "P st" and "sigchld_loop st = Ret u st'"
    and step: "\<And>c ws s s'. P s \<Longrightarrow> handle_child_status c ws s = Ret () s' \<Longrightarrow> P s'"
    and pend: "\<And>s r. P s \<Longrightarrow> P (s\<lparr>pending := r\<rparr>)"
  shows "P st'"
  using assms(1,2)
proof (induction st rule: sigchld_loop.induct)
  case (1 st)
  show ?case
  proof (cases "pending st")
    case Nil
    with "1.prems"(2) have "st' = st" by (subst (asm) sigchld_loop.simps) simp
    with "1.prems"(1) show ?thesis by simp
  next
    case (Cons x rest)
    obtain c ws where x: "x = (c, ws)" by (cases x)
    show ?thesis
    proof (cases "c > 0")
      case False
      with "1.prems"(2) Cons x have "st' = st\<lparr>pending := rest\<rparr>"
        by (subst (asm) sigchld_loop.simps) simp
      with pend[OF "1.prems"(1)] show ?thesis by simp
    next
      case True
      from "1.prems"(2) Cons x True obtain st1
        where r: "handle_child_status c ws (st\<lparr>pending := rest\<rparr>) = Ret () st1"
          and w: "sigchld_loop st1 = Ret u st'"
        by (subst (asm) sigchld_loop.simps) (auto split: outcome.splits)
      have "P st1" by (rule step[OF pend[OF "1.prems"(1)] r])
      from "1.IH"[OF Cons x[symmetric] True r this w] show ?thesis .
    qed
  qed
qed

lemma count_ok_pending [simp]: "count_ok (st\<lparr>pending := r\<rparr>) = count_ok st"
  by (simp add: count_ok_bounds)

lemma count_ok_wait_for_job:
  assumes "count_ok st" and "wait_for_job a st = Ret u st'"
  shows "count_ok st'"
proof -
  have "count_ok st' \<and> (\<exists>j. heap st' a = Some j
                      \<and> \<not> (status j = FOREGROUND \<and> 0 < num_processes_alive j))"
    by (rule wait_for_job_rule[where P=count_ok, OF assms])
       (auto dest: count_ok_handle_child_status)
  then show ?thesis by simp
qed

lemma count_ok_sigchld_handler:
  assumes "count_ok st" and "sigchld_handler sig st = Ret u st'"
  shows "count_ok st'"
proof -
  from assms(2) have l: "sigchld_loop st = Ret u st'"
    by (auto simp: sigchld_handler_def split: if_splits)
  show ?thesis
    by (rule sigchld_loop_rule[where P=count_ok, OF assms(1) l])
       (auto dest: count_ok_handle_child_status)
qed

lemma count_ok_handlers:
  "count_ok st \<Longrightarrow> handlers n st = Ret u st' \<Longrightarrow> count_ok st'"
  by (induction n arbitrary: st)
     (auto split: outcome.splits dest: count_ok_sigchld_handler)


lemma count_ok_emit [simp]: "count_ok (emit e st) = count_ok st"
  by (simp add: count_ok_bounds)

lemma count_ok_give_to [simp]: "count_ok (termstate_give_terminal_to t g st) = count_ok st"
  by (simp add: count_ok_bounds)

lemma count_ok_give_back [simp]:
  "count_ok (termstate_give_terminal_back_to_shell st) = count_ok st"
  by (simp add: count_ok_bounds)

lemma count_ok_print_job [simp]: "count_ok (print_job j st) = count_ok st"
  by (simp add: count_ok_bounds)

lemma count_ok_no_such_job [simp]: "count_ok (no_such_job x y st) = count_ok st"
  by (simp add: no_such_job_def)

lemma count_ok_status:
  "count_ok st \<Longrightarrow> heap st a = Some j \<Longrightarrow> count_ok (store a (j\<lparr>status := s\<rparr>) st)"
  by (auto simp: count_ok_bounds)

lemma heap_no_such_job [simp]: "heap (no_such_job x y st) = heap st"
  by (simp add: no_such_job_def)

lemma count_ok_jobs_loop:
  "count_ok st \<Longrightarrow> jobs_loop as st = Ret u st' \<Longrightarrow> count_ok st'"
proof (induction as arbitrary: st)
  case Nil
  then show ?case by simp
next
  case (Cons a as)
  from Cons.prems(2) obtain j where "heap st a = Some j"
    and "jobs_loop as (print_job j st) = Ret u st'"
    by (auto split: option.splits)
  with Cons.IH[of "print_job j st"] Cons.prems(1) show ?case by simp
qed

lemma count_ok_kill_builtin:
  assumes "count_ok st" and "kill_builtin av st = Ret u st'"
  shows "count_ok st'"
proof -
  from assms(2) obtain a0 a1 others where av: "av = a0 # a1 # others"
    by (auto simp: kill_builtin_def split: list.splits)
  let ?st1 = "if atoi a1 < 1 then no_such_job a0 a1 st else st"
  have c1: "count_ok ?st1" using assms(1) by simp
  show ?thesis
  proof (cases "get_job_from_jid (atoi a1) ?st1")
    case None
    with assms(2) av have "st' = no_such_job a0 a1 ?st1"
      by (simp add: kill_builtin_def Let_def)
    with c1 show ?thesis by simp
  next
    case (Some a)
    with assms(2) av obtain j where h: "heap ?st1 a = Some j"
      by (auto simp: kill_builtin_def Let_def split: option.splits)
    let ?st2 = "emit (Kill (- 1 * pgid j) SIGKILL) (store a (j\<lparr>status := FOREGROUND\<rparr>) ?st1)"
    from assms(2) av Some h obtain st3 where w: "wait_for_job a ?st2 = Ret () st3"
      and d: "discard_job a st3 = Ret u st'"
      by (auto simp: kill_builtin_def Let_def split: outcome.splits)
    have "count_ok ?st2" using count_ok_status[OF c1 h] by simp
    from count_ok_discard_job[OF count_ok_wait_for_job[OF this w] d] show ?thesis .
  qed
qed

lemma count_ok_bg_builtin:
  assumes "count_ok st" and "bg_builtin av st = Ret u st'"
  shows "count_ok st'"
proof -
  from assms(2) obtain a0 a1 others where av: "av = a0 # a1 # others"
    by (auto simp: bg_builtin_def split: list.splits)
  let ?st1 = "if atoi a1 < 1 then no_such_job a0 a1 st else st"
  have c1: "count_ok ?st1" using assms(1) by simp
  show ?thesis
  proof (cases "get_job_from_jid (atoi a1) ?st1")
    case None
    with assms(2) av have "st' = no_such_job a0 a1 ?st1"
      by (simp add: bg_builtin_def Let_def)
    with c1 show ?thesis by simp
  next
    case (Some a)
    with assms(2) av obtain j where h: "heap ?st1 a = Some j"
      by (auto simp: bg_builtin_def Let_def split: option.splits)
    from assms(2) av Some h
    have "st' = emit (Stdout (''['' @ show_int (atoi a1) @ ''] '' @ show_int (pgid j) @ nl))
                  (emit (Kill (- 1 * pgid j) SIGCONT) (store a (j\<lparr>status := BACKGROUND\<rparr>) ?st1))"
      by (simp add: bg_builtin_def Let_def)
    with count_ok_status[OF c1 h] show ?thesis by simp
  qed
qed

lemma count_ok_fg_builtin:
  assumes "count_ok st" and "fg_builtin av st = Ret u st'"
  shows "count_ok st'"
proof -
  from assms(2) obtain a0 a1 others where av: "av = a0 # a1 # others"
    by (auto simp: fg_builtin_def split: list.splits)
  let ?st1 = "if atoi a1 < 1 then no_such_job a0 a1 st else st"
  have c1: "count_ok ?st1" using assms(1) by simp
  show ?thesis
  proof (cases "get_job_from_jid (atoi a1) ?st1")
    case None
    with assms(2) av have "st' = no_such_job a0 a1 ?st1"
      by (simp add: fg_builtin_def Let_def)
    with c1 show ?thesis by simp
  next
    case (Some a)
    with assms(2) av obtain j where h: "heap ?st1 a = Some j"
      by (auto simp: fg_builtin_def Let_def split: option.splits)
    let ?st2 = "emit (Stdout (print_cmdline (pipe j) @ nl))
                  (emit (Kill (- 1 * pgid j) SIGCONT)
                     (termstate_give_terminal_to (saved_tty_state j) (pgid j)
                        (store a (j\<lparr>status := FOREGROUND\<rparr>) ?st1)))"
    from assms(2) av Some h obtain st3 where w: "wait_for_job a ?st2 = Ret () st3"
      and d: "discard_job a st3 = Ret u st' \<or> st' = st3"
      by (auto simp: fg_builtin_def Let_def split: outcome.splits option.splits if_splits)
    have "count_ok ?st2" using count_ok_status[OF c1 h] by simp
    from count_ok_wait_for_job[OF this w] have "count_ok st3" .
    with d show ?thesis by (auto dest: count_ok_discard_job)
  qed
qed

lemma count_ok_stop_builtin:
  "count_ok st \<Longrightarrow> stop_builtin av st = Ret u st' \<Longrightarrow> count_ok st'"
  by (auto simp: stop_builtin_def Let_def split: list.splits option.splits if_splits)

lemma count_ok_add_job:
  "count_ok st \<Longrightarrow> add_job p st = Ret a st' \<Longrightarrow> count_ok st'"
  by (auto simp: add_job_def Let_def fresh_job_def count_ok_bounds split: option.splits if_splits)

lemma count_ok_create_job:
  "count_ok st \<Longrightarrow> create_job p g st = Ret a st' \<Longrightarrow> count_ok st'"
  by (auto simp: create_job_def add_job_def Let_def fresh_job_def count_ok_bounds termstate_save_def
      split: option.splits if_splits outcome.splits)


lemma exit_builtin_not_Ret [simp]: "exit_builtin st \<noteq> Ret v s"
  by (simp add: exit_builtin_def exit_loop_not_Ret)

lemma count_ok_spawn_command:
  assumes "count_ok st" and "spawn_command p ans c a0 job pgrp st = Ret v st'"
  shows "count_ok st'"
proof (cases "spawn_rc ans = ENOENT")
  case True
  with assms show ?thesis by (auto simp: spawn_command_def)
next
  case False
  with assms(2) have z: "spawn_rc ans = 0"
    by (auto simp: spawn_command_def split: if_splits)
  let ?g = "if pgrp = 0 then spawn_pid ans else pgrp"
  let ?st0 = "if \<not> bg_job p then st\<lparr>term_owner := ?g\<rparr> else st"
  have c0: "count_ok ?st0" using assms(1) by (simp add: count_ok_bounds)
  from assms(2) False z obtain a st1 j
    where r: "(case job of None \<Rightarrow> create_job p ?g ?st0 | Some a \<Rightarrow> Ret a ?st0) = Ret a st1"
      and h: "heap st1 a = Some j"
      and b: "0 \<le> num_processes_alive j" "num_processes_alive j < int (length (procs j))"
      and e: "st' = store a
                     (j\<lparr>procs := (procs j)[nat (num_processes_alive j) :=
                                   \<lparr>pid = spawn_pid ans, pstatus = PSTAT_RUNNING, command = c\<rparr>],
                        num_processes_alive := num_processes_alive j + 1\<rparr>) st1"
    by (auto simp: spawn_command_def spawn_sets_terminal_def Let_def split: outcome.splits option.splits if_splits)
  from r c0 have c1: "count_ok st1"
    by (auto split: option.splits dest: count_ok_create_job)
  let ?j1 = "j\<lparr>procs := (procs j)[nat (num_processes_alive j) :=
                                   \<lparr>pid = spawn_pid ans, pstatus = PSTAT_RUNNING, command = c\<rparr>],
                        num_processes_alive := num_processes_alive j + 1\<rparr>"
  have n1: "0 \<le> num_processes_alive ?j1"
    "num_processes_alive ?j1 \<le> int (length (procs ?j1))"
    using b by simp_all
  show ?thesis unfolding e
    by (rule count_ok_upd[OF c1 _ n1]) simp
qed

lemma count_ok_run_command:
  assumes "count_ok st" and "run_command p ans is_last c job pgrp st = Ret v st'"
  shows "count_ok st'"
proof -
  from assms(2) obtain a0 args where a: "argv c = a0 # args"
    by (auto simp: run_command_def split: list.splits if_splits)
  from assms(2) a consider
      (jobs) "jobs_builtin st = Ret () st'"
    | (kill) "kill_builtin (argv c) st = Ret () st'"
    | (bg) "bg_builtin (argv c) st = Ret () st'"
    | (fg) "fg_builtin (argv c) st = Ret () st'"
    | (stop) "stop_builtin (argv c) st = Ret () st'"
    | (same) "heap st' = heap st"
    | (spawn) "spawn_command p ans c a0 job pgrp st = Ret v st'"
    by (auto simp: run_command_def keep_def split: if_splits outcome.splits
        dest: history_builtin_heap cd_builtin_heap)
  then show ?thesis
  proof cases
    case jobs
    with assms(1) show ?thesis by (auto simp: jobs_builtin_def dest: count_ok_jobs_loop)
  next
    case kill
    with assms(1) show ?thesis by (rule count_ok_kill_builtin)
  next
    case bg
    with assms(1) show ?thesis by (rule count_ok_bg_builtin)
  next
    case fg
    with assms(1) show ?thesis by (rule count_ok_fg_builtin)
  next
    case stop
    with assms(1) show ?thesis by (rule count_ok_stop_builtin)
  next
    case same
    from count_ok_heap[OF same] assms(1) show ?thesis by simp
  next
    case spawn
    with assms(1) show ?thesis by (rule count_ok_spawn_command)
  qed
qed

lemma count_ok_run_commands:
  "count_ok st \<Longrightarrow> run_commands p sys i cs job pgrp st = Ret v st' \<Longrightarrow> count_ok st'"
proof (induction cs arbitrary: p i job pgrp st)
  case Nil
  then show ?case by simp
next
  case (Cons c cs)
  from Cons.prems(2) obtain job1 pgrp1 st1
    where r: "run_command p (sys i) (cs = []) c job pgrp st = Ret (job1, pgrp1) st1"
      and rest: "run_commands (cd_written (home st) i c p) sys (Suc i) cs job1 pgrp1
                   (cd_written_job (home st) i c job1 st1) = Ret v st'"
    by (auto split: outcome.splits)
  from Cons.IH[OF count_ok_cd_written_job[OF count_ok_run_command[OF Cons.prems(1) r]] rest]
  show ?case .
qed

lemma count_ok_run_pipeline:
  assumes "count_ok st" and "run_pipeline pr st = Ret u st'"
  shows "count_ok st'"
proof -
  from assms(2) obtain job pgrp st1
    where r: "run_commands (fst pr) (snd pr) 0 (commands (fst pr)) None 0 st = Ret (job, pgrp) st1"
    by (auto simp: run_pipeline_def split: outcome.splits)
  from count_ok_run_commands[OF assms(1) r] have c1: "count_ok st1" .
  show ?thesis
  proof (cases job)
    case None
    with assms(2) r c1 show ?thesis by (simp add: run_pipeline_def)
  next
    case (Some a)
    with assms(2) r obtain j where h: "heap st1 a = Some j"
      by (auto simp: run_pipeline_def split: option.splits)
    show ?thesis
    proof (cases "bg_job (fst pr)")
      case True
      with assms(2) r Some h c1 show ?thesis by (auto simp: run_pipeline_def)
    next
      case False
      with assms(2) r Some h obtain st2
        where w: "wait_for_job a (termstate_give_terminal_to (saved_tty_state j) pgrp st1) = Ret () st2"
          and d: "discard_job a st2 = Ret u st' \<or> st' = st2"
        by (auto simp: run_pipeline_def split: outcome.splits option.splits if_splits)
      have "count_ok (termstate_give_terminal_to (saved_tty_state j) pgrp st1)"
        using c1 by simp
      from count_ok_wait_for_job[OF this w] d show ?thesis
        by (auto dest: count_ok_discard_job)
    qed
  qed
qed

lemma count_ok_run_pipelines:
  "count_ok st \<Longrightarrow> run_pipelines prs st = Ret u st' \<Longrightarrow> count_ok st'"
  by (induction prs arbitrary: st) (auto split: outcome.splits dest: count_ok_run_pipeline)

lemma count_ok_shell_iter:
  assumes "count_ok st" and "shell_iter inp st = Ret u st'"
  shows "count_ok st'"
proof -
  from assms(2) obtain st0 where h: "handlers (sigchlds inp) st = Ret () st0"
    and e: "eval_line (line inp) (add_history inp st0) = Ret u st'"
    by (auto simp: shell_iter_def split: outcome.splits)
  let ?st1 = "add_history inp st0"
  from count_ok_handlers[OF assms(1) h] have "count_ok st0" .
  then have c1: "count_ok ?st1" using count_ok_heap[of ?st1 st0] by simp
  from e c1 show ?thesis
    by (auto simp: eval_line_def split: parsed.splits if_splits outcome.splits
        dest: count_ok_run_pipelines)
qed

lemma count_ok_shell_loop:
  "count_ok st \<Longrightarrow> shell_loop inps st = Ret u st' \<Longrightarrow> count_ok st'"
  by (induction inps arbitrary: st)
     (auto split: if_splits outcome.splits dest: count_ok_shell_iter)

lemma count_ok_initial: "count_ok (initial pg owner t script)"
  by (simp add: count_ok_bounds initial_def)


lemma live_procs_memmove:
  assumes "0 \<le> c" and "c \<le> int (length ps)" and "int i < c"
  shows "take (nat (c - 1)) (memmove_down ps i (nat (c - int i - 1))) =
           take i (take (nat c) ps) @ drop (Suc i) (take (nat c) ps)"
proof -
  let ?n = "nat (c - int i - 1)"
  from assms have n: "Suc i + ?n = nat c" and le: "nat c \<le> length ps" by linarith+
  have l1: "length (take i ps) = i" using n le by simp
  have l2: "length (take ?n (drop (Suc i) ps)) = ?n" using n le by simp
  have c1: "nat (c - 1) = i + ?n" using n by linarith
  have "take (i + ?n) (memmove_down ps i ?n) = take i ps @ take ?n (drop (Suc i) ps)"
    unfolding memmove_down_def using l1 l2 by simp
  moreover have "take i (take (nat c) ps) = take i ps" using n by (simp add: min_def)
  moreover have "drop (Suc i) (take (nat c) ps) = take ?n (drop (Suc i) ps)"
  proof -
    have "nat c - Suc i = ?n" using n by linarith
    then show ?thesis by (simp add: drop_take)
  qed
  ultimately show ?thesis using c1 by simp
qed

lemma delete_job_frees: "delete_job a st = Ret u st' \<Longrightarrow> heap st' a = None"
  by (auto simp: delete_job_def split: option.splits if_splits)

lemma discard_job_frees: "discard_job a st = Ret u st' \<Longrightarrow> heap st' a = None"
  by (auto simp: discard_job_def list_remove_def split: option.splits if_splits
      dest: delete_job_frees)

lemma removal_keeps_order:
  assumes c: "count_ok st"
    and f: "find_pid p st = Ret (Some (a, i)) st"
    and h: "heap st a = Some j"
    and w: "WIFEXITED ws \<or> WIFSIGNALED ws"
    and r: "handle_child_status p ws st = Ret u st'"
    and h': "heap st' a = Some j'"
  shows "live_procs j' = take i (live_procs j) @ drop (Suc i) (live_procs j)
         \<and> num_processes_alive j' = num_processes_alive j - 1"
proof -
  from c h have b: "0 \<le> num_processes_alive j" "num_processes_alive j \<le> int (length (procs j))"
    by (simp_all add: count_ok_bounds)
  from find_pid_Some[OF f] h have i: "i < length (live_procs j)" by auto
  with b have ic: "int i < num_processes_alive j" by (simp add: live_procs_def)
  from w have ns: "\<not> WIFSTOPPED ws"
    by (auto simp: WIFSTOPPED_def WIFEXITED_def WIFSIGNALED_def split: wstatus.splits)
  from r f w ns have t: "handle_terminated_child p ws a i st = Ret u st'"
    by (simp add: handle_child_status_def)
  let ?j1 = "j\<lparr>procs := memmove_down (procs j) i (nat (num_processes_alive j - int i - 1)),
               num_processes_alive := num_processes_alive j - 1\<rparr>"
  have l: "live_procs ?j1 = take i (live_procs j) @ drop (Suc i) (live_procs j)"
    using live_procs_memmove[OF b ic] by (simp add: live_procs_def)
  from t h ic h' have "live_procs j' = live_procs ?j1
      \<and> num_processes_alive j' = num_processes_alive ?j1"
    by (auto simp: handle_terminated_child_def Let_def live_procs_def
        split: if_splits dest: discard_job_frees)
  with l show ?thesis by simp
qed


text \<open>
  Claim C7.  The count of every job equals the length of its live-process sequence in the
  state \<open>main\<close> starts from, and each call of the reaper, each command of a pipeline and
  each round of the read/eval loop keeps it so; hence it holds whenever the shell is back
  at the prompt.  When the reaper removes the process at index \<open>i\<close>, the sequence that
  remains is the old one without its \<open>i\<close>-th element, in the old order.
\<close>

theorem count_equals_sequence_length:
  "count_ok (initial pg owner t script)
   \<and> (count_ok st \<and> handle_child_status p ws st = Ret u st' \<longrightarrow> count_ok st')
   \<and> (count_ok st \<and> run_command pl ans is_last c job pgrp st = Ret v st' \<longrightarrow> count_ok st')
   \<and> (count_ok st \<and> shell_iter inp st = Ret u st' \<longrightarrow> count_ok st')
   \<and> (shell_loop inps (initial pg owner t script) = Ret u st' \<and> heap st' a = Some j \<longrightarrow>
        num_processes_alive j = int (length (live_procs j)))
   \<and> (count_ok st \<and> find_pid p st = Ret (Some (a, i)) st \<and> heap st a = Some j
        \<and> (WIFEXITED ws \<or> WIFSIGNALED ws)
        \<and> handle_child_status p ws st = Ret u st' \<and> heap st' a = Some j' \<longrightarrow>
        live_procs j' = take i (live_procs j) @ drop (Suc i) (live_procs j)
        \<and> num_processes_alive j' = num_processes_alive j - 1)"
proof (intro conjI impI)
  show "count_ok (initial pg owner t script)" by (rule count_ok_initial)
next
  assume "count_ok st \<and> handle_child_status p ws st = Ret u st'"
  then show "count_ok st'" by (auto dest: count_ok_handle_child_status)
next
  assume "count_ok st \<and> run_command pl ans is_last c job pgrp st = Ret v st'"
  then show "count_ok st'" by (auto dest: count_ok_run_command)
next
  assume "count_ok st \<and> shell_iter inp st = Ret u st'"
  then show "count_ok st'" by (auto dest: count_ok_shell_iter)
next
  assume a: "shell_loop inps (initial pg owner t script) = Ret u st' \<and> heap st' a = Some j"
  then have "count_ok st'" using count_ok_shell_loop[OF count_ok_initial] by blast
  with a show "num_processes_alive j = int (length (live_procs j))"
    unfolding count_ok_def by blast
next
  assume a: "count_ok st \<and> find_pid p st = Ret (Some (a, i)) st \<and> heap st a = Some j
        \<and> (WIFEXITED ws \<or> WIFSIGNALED ws)
        \<and> handle_child_status p ws st = Ret u st' \<and> heap st' a = Some j'"
  then have "live_procs j' = take i (live_procs j) @ drop (Suc i) (live_procs j)
        \<and> num_processes_alive j' = num_processes_alive j - 1"
    by (intro removal_keeps_order[of st p a i j ws u st' j']) simp_all
  then show "live_procs j' = take i (live_procs j) @ drop (Suc i) (live_procs j)"
    and "num_processes_alive j' = num_processes_alive j - 1" by simp_all
qed


theorem count_equals_sequence_length_witness:
  "count_ok (demo_shell3 BACKGROUND [])
   \<and> (\<exists>st' j'. handle_child_status 101 (WExited 0) (demo_shell3 BACKGROUND []) = Ret () st'
          \<and> count_ok st' \<and> heap st' 0 = Some j'
          \<and> map pid (live_procs (demo_job3 BACKGROUND)) = [100, 101, 102]
          \<and> map pid (live_procs j') = [100, 102] \<and> num_processes_alive j' = 2)
   \<and> (\<exists>v st'. run_command (demo_pipeline [[''kill'', ''1'']] False) (spawns_ok 0 0) True
                 \<lparr>argv = [''stop'', ''1''], dup_stderr_to_stdout = False\<rparr> None 0
                 (demo_shell3 BACKGROUND []) = Ret v st' \<and> count_ok st')
   \<and> (\<exists>st'. shell_iter bg_sleep (demo_shell3 BACKGROUND []) = Ret () st' \<and> count_ok st')
   \<and> (\<exists>st' j. shell_loop [bg_sleep] (initial 1 1 0 []) = Ret () st' \<and> heap st' 0 = Some j
          \<and> num_processes_alive j = int (length (live_procs j)) \<and> num_processes_alive j = 1)"
proof -
  note T = count_equals_sequence_length
  let ?D = "demo_shell3 BACKGROUND []"
  have c0: "count_ok ?D"
    by (simp add: count_ok_def demo_shell3_def demo_job3_def live_procs_def)
  have f: "find_pid 101 ?D = Ret (Some (0, 1)) ?D"
    by (simp add: find_pid_def demo_shell3_def demo_job3_def live_procs_def)
  have h: "heap ?D 0 = Some (demo_job3 BACKGROUND)" by (simp add: demo_shell3_def)
  have w: "WIFEXITED (WExited 0) \<or> WIFSIGNALED (WExited 0)" by (simp add: WIFEXITED_def)
  have "\<exists>st' j'. handle_child_status 101 (WExited 0) ?D = Ret () st' \<and> heap st' 0 = Some j'"
    by (simp add: handle_child_status_def f WIFSTOPPED_def WIFEXITED_def
        handle_terminated_child_def h demo_job3_def Let_def store_def)
  then obtain s1 j1 where r1: "handle_child_status 101 (WExited 0) ?D = Ret () s1"
    and h1: "heap s1 0 = Some j1" by blast
  from T[where st="?D" and p=101 and ws="WExited 0" and st'=s1] c0 r1
  have c1: "count_ok s1" by blast
  from T[where st="?D" and p=101 and ws="WExited 0" and st'=s1 and a=0 and i=1
      and j="demo_job3 BACKGROUND" and j'=j1] c0 f h w r1 h1
  have "live_procs j1 = take 1 (live_procs (demo_job3 BACKGROUND))
                        @ drop (Suc 1) (live_procs (demo_job3 BACKGROUND))
        \<and> num_processes_alive j1 = num_processes_alive (demo_job3 BACKGROUND) - 1"
    by blast
  moreover have "map pid (take 1 (live_procs (demo_job3 BACKGROUND))
                        @ drop (Suc 1) (live_procs (demo_job3 BACKGROUND))) = [100, 102]"
    "num_processes_alive (demo_job3 BACKGROUND) - 1 = 2"
    by (simp_all add: demo_job3_def live_procs_def)
  ultimately have o1: "map pid (live_procs j1) = [100, 102] \<and> num_processes_alive j1 = 2"
    by metis
  have o0: "map pid (live_procs (demo_job3 BACKGROUND)) = [100, 101, 102]"
    by (simp add: demo_job3_def live_procs_def)
  have "\<exists>v st'. run_command (demo_pipeline [[''kill'', ''1'']] False) (spawns_ok 0 0) True
                 \<lparr>argv = [''stop'', ''1''], dup_stderr_to_stdout = False\<rparr> None 0 ?D = Ret v st'"
    by (simp add: run_command_def keep_def stop_builtin_def atoi_def is_space_def is_digit_def
        get_job_from_jid_def MAXJOBS_def demo_shell3_def Let_def)
  then obtain v2 s2 where r2: "run_command (demo_pipeline [[''kill'', ''1'']] False)
       (spawns_ok 0 0) True \<lparr>argv = [''stop'', ''1''], dup_stderr_to_stdout = False\<rparr> None 0 ?D
       = Ret v2 s2" by blast
  from T[where st="?D" and st'=s2] c0 r2 have c2: "count_ok s2" by blast
  have fd: "first_free_jid ((\<lambda>i. None)(1 \<mapsto> 0)) 1 = Some 2"
    by (subst first_free_jid.simps, simp add: MAXJOBS_def)
       (subst first_free_jid.simps, simp add: MAXJOBS_def)
  have "\<exists>st'. shell_iter bg_sleep ?D = Ret () st'"
    by (simp add: run_defs bg_sleep_def demo_shell3_def fd)
  then obtain s3 where r3: "shell_iter bg_sleep ?D = Ret () s3" by blast
  from T[where st="?D" and st'=s3 and inp=bg_sleep] c0 r3 have c3: "count_ok s3" by blast
  have "\<exists>st' j. shell_loop [bg_sleep] (initial 1 1 0 []) = Ret () st' \<and> heap st' 0 = Some j
      \<and> num_processes_alive j = 1"
    by (simp add: run_defs bg_sleep_def first_free_empty)
  then obtain s4 j4 where r4: "shell_loop [bg_sleep] (initial 1 1 0 []) = Ret () s4"
    and h4: "heap s4 0 = Some j4" and n4: "num_processes_alive j4 = 1" by blast
  from T[where inps="[bg_sleep]" and pg=1 and owner=1 and t=0 and script="[]" and st'=s4
      and a=0 and j=j4] r4 h4
  have o4: "num_processes_alive j4 = int (length (live_procs j4))" by blast
  from r1 c1 h1 o0 o1
  have e1: "\<exists>st' j'. handle_child_status 101 (WExited 0) ?D = Ret () st'
          \<and> count_ok st' \<and> heap st' 0 = Some j'
          \<and> map pid (live_procs (demo_job3 BACKGROUND)) = [100, 101, 102]
          \<and> map pid (live_procs j') = [100, 102] \<and> num_processes_alive j' = 2"
    by auto
  from r2 c2
  have e2: "\<exists>v st'. run_command (demo_pipeline [[''kill'', ''1'']] False) (spawns_ok 0 0) True
                 \<lparr>argv = [''stop'', ''1''], dup_stderr_to_stdout = False\<rparr> None 0
                 ?D = Ret v st' \<and> count_ok st'"
    by auto
  from r3 c3 have e3: "\<exists>st'. shell_iter bg_sleep ?D = Ret () st' \<and> count_ok st'" by auto
  from r4 h4 o4 n4
  have e4: "\<exists>st' j. shell_loop [bg_sleep] (initial 1 1 0 []) = Ret () st' \<and> heap st' 0 = Some j
          \<and> num_processes_alive j = int (length (live_procs j)) \<and> num_processes_alive j = 1"
    by auto
  from c0 e1 e2 e3 e4 show ?thesis by (intro conjI)
qed


section \<open>Leaving the shell\<close>


















lemma registry_live_emit [simp]: "registry_live (emit e st) = registry_live st"
  by (simp add: registry_live_def emit_def live_pids_def)

lemma death_order_emit [simp]: "death_order (emit e st) ord = death_order st ord"
  by (simp add: death_order_def emit_def live_pids_def)

lemma kill_trace_emit [simp]: "kill_trace (emit e st) as = kill_trace st as"
  by (simp add: kill_trace_def emit_def)


















section \<open>The foreground status\<close>

lemma waiting_None: "waiting None st = quiet st"
  by (simp add: waiting_def quiet_def)

lemma quiet_waiting: "quiet st \<Longrightarrow> waiting w st"
  by (auto simp: waiting_def quiet_def others_settled_def settled_def in_wait_def alive_def)

lemma waiting_heap: "heap st' = heap st \<Longrightarrow> waiting w st' = waiting w st"
  unfolding waiting_def others_settled_def by simp

lemma waiting_pending [simp]: "waiting w (st\<lparr>pending := r\<rparr>) = waiting w st"
  by (simp add: waiting_def others_settled_def)

lemma waiting_upd:
  assumes "waiting w st" and "heap st' = (heap st)(a \<mapsto> j)"
    and "if w = Some a then in_wait j else settled j"
  shows "waiting w st'"
  using assms by (auto simp: waiting_def others_settled_def split: if_splits)

lemma delete_job_heap:
  assumes "delete_job a st = Ret u st'"
  shows "heap st' a = None
         \<and> (\<forall>x jx. heap st' x = Some jx \<longrightarrow>
               (\<exists>jy. heap st x = Some jy \<and> status jx = status jy
                     \<and> num_processes_alive jx = num_processes_alive jy))"
proof -
  from assms obtain b jb where hb: "heap st b = Some jb"
    and e: "heap st' = ((heap st)(b \<mapsto> jb\<lparr>jid := - 1\<rparr>))(a := None)"
    by (auto simp: delete_job_def split: option.splits if_splits)
  show ?thesis
  proof (intro conjI allI impI)
    show "heap st' a = None" by (simp add: e)
  next
    fix x jx assume x: "heap st' x = Some jx"
    show "\<exists>jy. heap st x = Some jy \<and> status jx = status jy
                     \<and> num_processes_alive jx = num_processes_alive jy"
    proof (cases "x = b")
      case True
      with x e hb show ?thesis by (cases "x = a") auto
    next
      case False
      with x e show ?thesis by (cases "x = a") auto
    qed
  qed
qed

lemma discard_job_heap:
  assumes "discard_job a st = Ret u st'"
  shows "heap st' a = None
         \<and> (\<forall>x jx. heap st' x = Some jx \<longrightarrow>
               (\<exists>jy. heap st x = Some jy \<and> status jx = status jy
                     \<and> num_processes_alive jx = num_processes_alive jy))"
proof -
  from assms have d: "delete_job a (st\<lparr>job_list := remove1 a (job_list st)\<rparr>) = Ret u st'"
    by (auto simp: discard_job_def list_remove_def split: option.splits if_splits)
  from delete_job_heap[OF d] show ?thesis by simp
qed

lemma waiting_shrink:
  assumes c: "waiting w st"
    and s: "\<forall>x jx. heap st' x = Some jx \<longrightarrow>
               (\<exists>jy. heap st x = Some jy \<and> status jx = status jy
                     \<and> num_processes_alive jx = num_processes_alive jy)"
  shows "waiting w st'"
  unfolding waiting_def others_settled_def
proof (intro conjI allI impI)
  fix x jx assume a: "heap st' x = Some jx \<and> w \<noteq> Some x"
  with s obtain jy where "heap st x = Some jy" "status jx = status jy"
    "num_processes_alive jx = num_processes_alive jy" by blast
  with c a show "settled jx" by (auto simp: waiting_def others_settled_def settled_def)
next
  fix x jx assume a: "w = Some x \<and> heap st' x = Some jx"
  with s obtain jy where "heap st x = Some jy" "status jx = status jy"
    "num_processes_alive jx = num_processes_alive jy" by blast
  with c a show "in_wait jx" by (auto simp: waiting_def in_wait_def alive_def)
qed

lemma waiting_discard_job:
  assumes "waiting w st" and "discard_job a st = Ret u st'"
  shows "waiting w st'"
  using waiting_shrink[OF assms(1)] discard_job_heap[OF assms(2)] by blast

lemma waitingD:
  "waiting w st \<Longrightarrow> heap st a = Some j \<Longrightarrow> (if w = Some a then in_wait j else settled j)"
  by (auto simp: waiting_def others_settled_def)

lemma waiting_handle_stopped_child:
  assumes c: "waiting w st" and h: "heap st a = Some j" and n: "0 < num_processes_alive j"
    and r: "handle_stopped_child p ws a i st = Ret u st'"
  shows "waiting w st'"
proof -
  let ?j1 = "j\<lparr>procs := (procs j)[i := (procs j ! i)\<lparr>pstatus := PSTAT_STOPPED\<rparr>]\<rparr>"
  let ?s = "if WSTOPSIG ws = SIGTTOU \<or> WSTOPSIG ws = SIGTTIN then NEEDSTERMINAL else STOPPED"
  let ?j3 = "?j1\<lparr>status := ?s, saved_tty_state := tty st\<rparr>"
  from r h consider (cont) "heap st' = heap st"
    | (proc) "heap st' = (heap st)(a \<mapsto> ?j1)"
    | (job) "heap st' = (heap st)(a \<mapsto> ?j3)"
    by (auto simp: handle_stopped_child_def Let_def termstate_save_def split: if_splits)
  then show ?thesis
  proof cases
    case cont
    with c show ?thesis using waiting_heap[of st' st w] by simp
  next
    case proc
    have "if w = Some a then in_wait ?j1 else settled ?j1"
    proof (cases "w = Some a")
      case True
      with waitingD[OF c h] n show ?thesis by (simp add: in_wait_def alive_def)
    next
      case False
      with waitingD[OF c h] n show ?thesis by (simp add: settled_def)
    qed
    from waiting_upd[OF c proc this] show ?thesis .
  next
    case job
    have s: "?s \<noteq> FOREGROUND \<and> ?s \<noteq> TERMINATED" by simp
    have "if w = Some a then in_wait ?j3 else settled ?j3"
    proof (cases "w = Some a")
      case True
      with n s show ?thesis by (simp add: in_wait_def alive_def)
    next
      case False
      with n s show ?thesis by (simp add: settled_def)
    qed
    from waiting_upd[OF c job this] show ?thesis .
  qed
qed

lemma waiting_handle_terminated_child:
  assumes c: "waiting w st" and r: "handle_terminated_child p ws a i st = Ret u st'"
  shows "waiting w st'"
proof -
  from r obtain j where h: "heap st a = Some j"
    by (auto simp: handle_terminated_child_def split: option.splits)
  from r h have g: "\<not> num_processes_alive j - int i - 1 < 0"
    by (auto simp: handle_terminated_child_def Let_def split: if_splits)
  then have n: "0 < num_processes_alive j" by linarith
  from waitingD[OF c h] n
  have k: "if w = Some a then alive j else settled j"
    by (auto simp: in_wait_def alive_def split: if_splits)
  let ?st1 = "if WIFSIGNALED ws then emit (Strsignal (WTERMSIG ws)) st else st"
  let ?j1 = "j\<lparr>procs := memmove_down (procs j) i (nat (num_processes_alive j - int i - 1)),
               num_processes_alive := num_processes_alive j - 1\<rparr>"
  let ?st2 = "store a ?j1 ?st1"
  have h2: "heap ?st2 = (heap st)(a \<mapsto> ?j1)" by simp
  show ?thesis
  proof (cases "num_processes_alive ?j1 = 0")
    case False
    with r h g have e: "st' = ?st2"
      by (simp add: handle_terminated_child_def Let_def)
    from False g have "0 < num_processes_alive ?j1" by simp
    with k have "if w = Some a then in_wait ?j1 else settled ?j1"
      by (auto simp: in_wait_def alive_def settled_def split: if_splits)
    from waiting_upd[OF c h2 this] e show ?thesis by simp
  next
    case True
    show ?thesis
    proof (cases "status j = FOREGROUND")
      case fg: True
      let ?st3 = "if WIFEXITED ws \<and> WEXITSTATUS ws = 0 then termstate_sample ?st2 else ?st2"
      from r h g True fg have e: "st' = store a (?j1\<lparr>status := TERMINATED\<rparr>) ?st3"
        by (simp add: handle_terminated_child_def Let_def)
      have h3: "heap st' = (heap st)(a \<mapsto> ?j1\<lparr>status := TERMINATED\<rparr>)"
        unfolding e by simp
      from k fg have wa: "w = Some a" by (auto simp: settled_def split: if_splits)
      have "if w = Some a then in_wait (?j1\<lparr>status := TERMINATED\<rparr>)
            else settled (?j1\<lparr>status := TERMINATED\<rparr>)"
        using wa True by (simp add: in_wait_def)
      from waiting_upd[OF c h3 this] show ?thesis .
    next
      case False
      with r h g True have d: "discard_job a ?st2 = Ret u st'"
        by (simp add: handle_terminated_child_def Let_def)
      have "\<forall>x jx. heap st' x = Some jx \<longrightarrow>
               (\<exists>jy. heap st x = Some jy \<and> status jx = status jy
                     \<and> num_processes_alive jx = num_processes_alive jy)"
      proof (intro allI impI)
        fix x jx assume x: "heap st' x = Some jx"
        from discard_job_heap[OF d] x have xa: "x \<noteq> a" by auto
        from discard_job_heap[OF d] x obtain jy where "heap ?st2 x = Some jy"
          "status jx = status jy" "num_processes_alive jx = num_processes_alive jy" by blast
        with xa show "\<exists>jy. heap st x = Some jy \<and> status jx = status jy
                     \<and> num_processes_alive jx = num_processes_alive jy"
          by (auto split: if_splits)
      qed
      from waiting_shrink[OF c this] show ?thesis .
    qed
  qed
qed

lemma handle_child_status_cases:
  assumes r: "handle_child_status p ws st = Ret u st'"
  obtains a i j where "find_pid p st = Ret (Some (a, i)) st" and "heap st a = Some j"
    and "i < length (live_procs j)"
    and "handle_stopped_child p ws a i st = Ret u st'
         \<or> handle_terminated_child p ws a i st = Ret u st' \<or> st' = st"
proof (cases "find_pid p st")
  case (Halt h s)
  with r show ?thesis by (simp add: handle_child_status_def)
next
  case (Ret x s)
  show ?thesis
  proof (cases x)
    case None
    with r Ret show ?thesis by (simp add: handle_child_status_def)
  next
    case (Some ai)
    obtain a i where ai: "ai = (a, i)" by (cases ai)
    from find_pid_Some[of p st a i s] Ret Some ai
    obtain j where s: "s = st" and h: "heap st a = Some j" and i: "i < length (live_procs j)"
      by auto
    from Ret Some ai s have f: "find_pid p st = Ret (Some (a, i)) st" by simp
    from r f have "handle_stopped_child p ws a i st = Ret u st'
         \<or> handle_terminated_child p ws a i st = Ret u st' \<or> st' = st"
      by (simp add: handle_child_status_def split: if_splits)
    from that[OF f h i this] show ?thesis .
  qed
qed

lemma waiting_handle_child_status:
  assumes c: "waiting w st" and r: "handle_child_status p ws st = Ret u st'"
  shows "waiting w st'"
proof -
  from r obtain a i j where h: "heap st a = Some j" and i: "i < length (live_procs j)"
    and d: "handle_stopped_child p ws a i st = Ret u st'
         \<or> handle_terminated_child p ws a i st = Ret u st' \<or> st' = st"
    by (rule handle_child_status_cases)
  from i have n: "0 < num_processes_alive j" by (auto simp: live_procs_def)
  from d show ?thesis
  proof (elim disjE)
    assume "handle_stopped_child p ws a i st = Ret u st'"
    from waiting_handle_stopped_child[OF c h n this] show ?thesis .
  next
    assume "handle_terminated_child p ws a i st = Ret u st'"
    from waiting_handle_terminated_child[OF c this] show ?thesis .
  next
    assume "st' = st"
    with c show ?thesis by simp
  qed
qed


lemma waiting_emit [simp]: "waiting w (emit e st) = waiting w st"
  by (simp add: waiting_def others_settled_def)

lemma waiting_give_to [simp]: "waiting w (termstate_give_terminal_to t g st) = waiting w st"
  by (simp add: waiting_def others_settled_def)

lemma waiting_give_back [simp]:
  "waiting w (termstate_give_terminal_back_to_shell st) = waiting w st"
  by (simp add: waiting_def others_settled_def)

lemma waiting_print_job [simp]: "waiting w (print_job j st) = waiting w st"
  by (simp add: waiting_def others_settled_def)

lemma waiting_no_such_job [simp]: "waiting w (no_such_job x y st) = waiting w st"
  by (simp add: waiting_def others_settled_def)

lemma waiting_wait_for_job:
  assumes "waiting w st" and "wait_for_job a st = Ret u st'"
  shows "waiting w st' \<and> (\<exists>j. heap st' a = Some j
                      \<and> \<not> (status j = FOREGROUND \<and> 0 < num_processes_alive j))"
  by (rule wait_for_job_rule[where P="waiting w", OF assms])
     (auto dest: waiting_handle_child_status)

lemma quiet_sigchld_handler:
  assumes "quiet st" and "sigchld_handler sig st = Ret u st'"
  shows "quiet st'"
proof -
  from assms(2) have l: "sigchld_loop st = Ret u st'"
    by (auto simp: sigchld_handler_def split: if_splits)
  from assms(1) have w: "waiting None st" by (simp add: waiting_None)
  have "waiting None st'"
    by (rule sigchld_loop_rule[where P="waiting None", OF w l])
       (auto dest: waiting_handle_child_status)
  then show ?thesis by (simp add: waiting_None)
qed

lemma quiet_handlers:
  "quiet st \<Longrightarrow> handlers n st = Ret u st' \<Longrightarrow> quiet st'"
  by (induction n arbitrary: st)
     (auto split: outcome.splits dest: quiet_sigchld_handler)

text \<open>After the wait for a job that was marked foreground in a quiet state.\<close>

lemma quiet_after_wait:
  assumes q: "waiting (Some a) st"
    and w: "wait_for_job a st = Ret u1 st1"
    and d: "\<And>j. heap st1 a = Some j \<Longrightarrow>
              (status j = TERMINATED \<and> discard_job a st1 = Ret u st')
              \<or> (status j \<noteq> TERMINATED \<and> st' = st1)"
  shows "quiet st'"
proof -
  from waiting_wait_for_job[OF q w] obtain j where w1: "waiting (Some a) st1"
    and h: "heap st1 a = Some j"
    and n: "\<not> (status j = FOREGROUND \<and> 0 < num_processes_alive j)" by blast
  from w1 h have iw: "in_wait j" by (auto simp: waiting_def)
  from d[OF h] show ?thesis
  proof
    assume t: "status j = TERMINATED \<and> discard_job a st1 = Ret u st'"
    then have dj: "discard_job a st1 = Ret u st'" by simp
    from waiting_discard_job[OF w1 dj] have w2: "waiting (Some a) st'" .
    from discard_job_heap[OF dj] have "heap st' a = None" by simp
    with w2 show ?thesis
      unfolding quiet_def waiting_def others_settled_def by (metis option.distinct(1) option.inject)
  next
    assume t: "status j \<noteq> TERMINATED \<and> st' = st1"
    with iw n have "settled j" by (auto simp: in_wait_def alive_def settled_def)
    with w1 h t show ?thesis
      unfolding quiet_def waiting_def others_settled_def by (metis option.inject)
  qed
qed

lemma quiet_mark_foreground:
  assumes "quiet st" and "heap st a = Some j"
  shows "waiting (Some a) (store a (j\<lparr>status := FOREGROUND\<rparr>) st)"
proof -
  from assms have "settled j" by (auto simp: quiet_def others_settled_def)
  then have "in_wait (j\<lparr>status := FOREGROUND\<rparr>)" by (simp add: settled_def in_wait_def alive_def)
  with assms(1) show ?thesis
    by (auto simp: waiting_def quiet_def others_settled_def)
qed


lemma building_None: "building p None st = quiet st"
  by (simp add: building_def quiet_def)

lemma building_heap: "heap st' = heap st \<Longrightarrow> building p w st' = building p w st"
  unfolding building_def others_settled_def by simp

lemma building_upd:
  assumes "building p w st" and "heap st' = (heap st)(a \<mapsto> j)"
    and "if w = Some a then alive j \<and> (bg_job p \<longrightarrow> status j \<noteq> FOREGROUND) else settled j"
  shows "building p w st'"
  using assms by (auto simp: building_def others_settled_def split: if_splits)

lemma building_bg: "bg_job p' = bg_job p \<Longrightarrow> building p' w st = building p w st"
  by (simp add: building_def)

lemma building_cd_written_job:
  assumes "building p w st"
  shows "building p w (cd_written_job h i c job st)"
proof -
  have k: "\<exists>j. heap st a = Some j \<and> settled j' = settled j \<and> alive j' = alive j
              \<and> status j' = status j"
    if "heap (cd_written_job h i c job st) a = Some j'" for a j'
    using cd_written_job_heap[OF that] by (auto simp: settled_def alive_def)
  show ?thesis
    unfolding building_def others_settled_def
  proof (intro conjI allI impI)
    fix b j
    assume "heap (cd_written_job h i c job st) b = Some j \<and> w \<noteq> Some b"
    with k[of b j] assms show "settled j"
      unfolding building_def others_settled_def by auto
  next
    fix a j
    assume "w = Some a \<and> heap (cd_written_job h i c job st) a = Some j"
    with k[of a j] assms show "alive j"
      unfolding building_def others_settled_def by auto
  next
    fix a j
    assume "w = Some a \<and> heap (cd_written_job h i c job st) a = Some j" and "bg_job p"
    with k[of a j] assms show "status j \<noteq> FOREGROUND"
      unfolding building_def others_settled_def by auto
  qed
qed

lemma building_emit [simp]: "building p w (emit e st) = building p w st"
  by (simp add: building_def others_settled_def)

lemma building_print_job [simp]: "building p w (print_job j st) = building p w st"
  by (simp add: building_def others_settled_def)

lemma building_no_such_job [simp]: "building p w (no_such_job x y st) = building p w st"
  by (simp add: building_def others_settled_def)

lemma building_jobs_loop:
  "building p w st \<Longrightarrow> jobs_loop as st = Ret u st' \<Longrightarrow> building p w st'"
proof (induction as arbitrary: st)
  case Nil
  then show ?case by simp
next
  case (Cons a as)
  from Cons.prems(2) obtain j where "heap st a = Some j"
    and "jobs_loop as (print_job j st) = Ret u st'"
    by (auto split: option.splits)
  with Cons.IH[of "print_job j st"] Cons.prems(1) show ?case by simp
qed

lemma building_stop_builtin:
  "building p w st \<Longrightarrow> stop_builtin av st = Ret u st' \<Longrightarrow> building p w st'"
  by (auto simp: stop_builtin_def Let_def split: list.splits option.splits if_splits)

lemma building_bg_builtin:
  assumes "building p w st" and "bg_builtin av st = Ret u st'"
  shows "building p w st'"
proof -
  from assms(2) obtain a0 a1 others where av: "av = a0 # a1 # others"
    by (auto simp: bg_builtin_def split: list.splits)
  let ?st1 = "if atoi a1 < 1 then no_such_job a0 a1 st else st"
  have c1: "building p w ?st1" using assms(1) by simp
  show ?thesis
  proof (cases "get_job_from_jid (atoi a1) ?st1")
    case None
    with assms(2) av have "st' = no_such_job a0 a1 ?st1"
      by (simp add: bg_builtin_def Let_def)
    with c1 show ?thesis by simp
  next
    case (Some a)
    with assms(2) av obtain j where h: "heap ?st1 a = Some j"
      by (auto simp: bg_builtin_def Let_def split: option.splits)
    let ?st2 = "store a (j\<lparr>status := BACKGROUND\<rparr>) ?st1"
    from assms(2) av Some h
    have e: "st' = emit (Stdout (''['' @ show_int (atoi a1) @ ''] '' @ show_int (pgid j) @ nl))
                  (emit (Kill (- 1 * pgid j) SIGCONT) ?st2)"
      by (simp add: bg_builtin_def Let_def)
    have "if w = Some a
          then alive (j\<lparr>status := BACKGROUND\<rparr>)
               \<and> (bg_job p \<longrightarrow> status (j\<lparr>status := BACKGROUND\<rparr>) \<noteq> FOREGROUND)
          else settled (j\<lparr>status := BACKGROUND\<rparr>)"
    proof (cases "w = Some a")
      case True
      with c1 h have "alive j" unfolding building_def by blast
      with True show ?thesis by (simp add: alive_def)
    next
      case False
      with c1 h have "settled j" unfolding building_def others_settled_def by blast
      with False show ?thesis by (simp add: settled_def)
    qed
    from building_upd[OF c1 _ this] have "building p w ?st2" by simp
    with e show ?thesis by simp
  qed
qed

lemma quiet_kill_builtin:
  assumes "quiet st" and "kill_builtin av st = Ret u st'"
  shows "quiet st'"
proof -
  from assms(2) obtain a0 a1 others where av: "av = a0 # a1 # others"
    by (auto simp: kill_builtin_def split: list.splits)
  let ?st1 = "if atoi a1 < 1 then no_such_job a0 a1 st else st"
  have c1: "quiet ?st1" using assms(1) by (simp add: quiet_def others_settled_def)
  show ?thesis
  proof (cases "get_job_from_jid (atoi a1) ?st1")
    case None
    with assms(2) av have "st' = no_such_job a0 a1 ?st1"
      by (simp add: kill_builtin_def Let_def)
    with c1 show ?thesis by (simp add: quiet_def others_settled_def)
  next
    case (Some a)
    with assms(2) av obtain j where h: "heap ?st1 a = Some j"
      by (auto simp: kill_builtin_def Let_def split: option.splits)
    let ?st2 = "emit (Kill (- 1 * pgid j) SIGKILL) (store a (j\<lparr>status := FOREGROUND\<rparr>) ?st1)"
    from assms(2) av Some h obtain st3 where w: "wait_for_job a ?st2 = Ret () st3"
      and d: "discard_job a st3 = Ret u st'"
      by (auto simp: kill_builtin_def Let_def split: outcome.splits)
    have w2: "waiting (Some a) ?st2" using quiet_mark_foreground[OF c1 h] by simp
    from waiting_wait_for_job[OF w2 w] have w3: "waiting (Some a) st3" by simp
    from waiting_discard_job[OF w3 d] have w4: "waiting (Some a) st'" .
    from discard_job_heap[OF d] have "heap st' a = None" by simp
    with w4 show ?thesis
      unfolding quiet_def waiting_def others_settled_def by (metis option.distinct(1) option.inject)
  qed
qed

lemma quiet_fg_builtin:
  assumes "quiet st" and "fg_builtin av st = Ret u st'"
  shows "quiet st'"
proof -
  from assms(2) obtain a0 a1 others where av: "av = a0 # a1 # others"
    by (auto simp: fg_builtin_def split: list.splits)
  let ?st1 = "if atoi a1 < 1 then no_such_job a0 a1 st else st"
  have c1: "quiet ?st1" using assms(1) by (simp add: quiet_def others_settled_def)
  show ?thesis
  proof (cases "get_job_from_jid (atoi a1) ?st1")
    case None
    with assms(2) av have "st' = no_such_job a0 a1 ?st1"
      by (simp add: fg_builtin_def Let_def)
    with c1 show ?thesis by (simp add: quiet_def others_settled_def)
  next
    case (Some a)
    with assms(2) av obtain j where h: "heap ?st1 a = Some j"
      by (auto simp: fg_builtin_def Let_def split: option.splits)
    let ?st2 = "emit (Stdout (print_cmdline (pipe j) @ nl))
                  (emit (Kill (- 1 * pgid j) SIGCONT)
                     (termstate_give_terminal_to (saved_tty_state j) (pgid j)
                        (store a (j\<lparr>status := FOREGROUND\<rparr>) ?st1)))"
    from assms(2) av Some h obtain st3 where w: "wait_for_job a ?st2 = Ret () st3"
      and d: "\<And>j2. heap st3 a = Some j2 \<Longrightarrow>
              (status j2 = TERMINATED \<and> discard_job a st3 = Ret u st')
              \<or> (status j2 \<noteq> TERMINATED \<and> st' = st3)"
      by (auto simp: fg_builtin_def Let_def split: outcome.splits option.splits if_splits)
    have w2: "waiting (Some a) ?st2" using quiet_mark_foreground[OF c1 h] by simp
    from quiet_after_wait[OF w2 w d] show ?thesis by simp
  qed
qed


lemma create_job_heap:
  assumes "create_job p g st = Ret a st'"
  shows "\<exists>jn. heap st' = (heap st)(a \<mapsto> jn)
              \<and> status jn = (if bg_job p then BACKGROUND else FOREGROUND)
              \<and> num_processes_alive jn = 0"
  using assms
  by (auto simp: create_job_def add_job_def Let_def fresh_job_def termstate_save_def
      split: option.splits outcome.splits if_splits)

lemma building_spawn_command:
  assumes b: "building p job st"
    and r: "spawn_command p ans c a0 job pgrp st = Ret (job', pgrp') st'"
  shows "building p job' st'"
proof (cases "spawn_rc ans = ENOENT")
  case True
  with b r show ?thesis by (auto simp: spawn_command_def)
next
  case False
  with r have z: "spawn_rc ans = 0"
    by (auto simp: spawn_command_def split: if_splits)
  let ?g = "if pgrp = 0 then spawn_pid ans else pgrp"
  let ?st0 = "if \<not> bg_job p then st\<lparr>term_owner := ?g\<rparr> else st"
  have h0: "heap ?st0 = heap st" by simp
  from r False z obtain a st1 j
    where cr: "(case job of None \<Rightarrow> create_job p ?g ?st0 | Some a \<Rightarrow> Ret a ?st0) = Ret a st1"
      and h: "heap st1 a = Some j"
      and n: "0 \<le> num_processes_alive j"
      and e: "st' = store a
                     (j\<lparr>procs := (procs j)[nat (num_processes_alive j) :=
                                   \<lparr>pid = spawn_pid ans, pstatus = PSTAT_RUNNING, command = c\<rparr>],
                        num_processes_alive := num_processes_alive j + 1\<rparr>) st1"
      and j': "job' = Some a"
    by (auto simp: spawn_command_def spawn_sets_terminal_def Let_def split: outcome.splits option.splits if_splits)
  let ?j1 = "j\<lparr>procs := (procs j)[nat (num_processes_alive j) :=
                                   \<lparr>pid = spawn_pid ans, pstatus = PSTAT_RUNNING, command = c\<rparr>],
                        num_processes_alive := num_processes_alive j + 1\<rparr>"
  show ?thesis
  proof (cases job)
    case None
    with cr have c1: "create_job p ?g ?st0 = Ret a st1" by simp
    from create_job_heap[OF c1] h h0 obtain jn where hh: "heap st1 = (heap st)(a \<mapsto> jn)"
      and s: "status j = (if bg_job p then BACKGROUND else FOREGROUND)"
      by auto
    from b None have q: "quiet st" by (simp add: building_None)
    have h': "heap st' = (heap st)(a \<mapsto> ?j1)" unfolding e using hh by simp
    show ?thesis
      unfolding j' building_def others_settled_def
    proof (intro conjI allI impI)
      fix x jx assume "heap st' x = Some jx \<and> Some a \<noteq> Some x"
      with h' have "heap st x = Some jx" by (auto split: if_splits)
      with q show "settled jx" by (auto simp: quiet_def others_settled_def)
    next
      fix x jx assume "Some a = Some x \<and> heap st' x = Some jx"
      with h' have jx: "jx = ?j1" by auto
      show "alive jx" unfolding jx using n s by (simp add: alive_def)
      assume "bg_job p"
      with s show "status jx \<noteq> FOREGROUND" unfolding jx by simp
    qed
  next
    case (Some a')
    with cr have aa: "a' = a" and s1: "st1 = ?st0" by simp_all
    from h s1 have hs: "heap st a = Some j" by (simp split: if_splits)
    have h': "heap st' = (heap st)(a \<mapsto> ?j1)" unfolding e s1 by simp
    from b Some aa hs have al: "alive j \<and> (bg_job p \<longrightarrow> status j \<noteq> FOREGROUND)"
      unfolding building_def by blast
    have "if job = Some a then alive ?j1 \<and> (bg_job p \<longrightarrow> status ?j1 \<noteq> FOREGROUND)
          else settled ?j1"
      using Some aa al by (simp add: alive_def)
    from building_upd[OF b h' this] j' Some aa show ?thesis by simp
  qed
qed


lemma building_run_command:
  assumes b: "building p job st"
    and r: "run_command p ans is_last c job pgrp st = Ret (job', pgrp') st'"
    and t: "tame seen (c # cs)"
    and s: "\<not> seen \<longrightarrow> job = None"
  shows "building p job' st' \<and> tame (seen \<or> external c) cs
         \<and> (\<not> (seen \<or> external c) \<longrightarrow> job' = None)"
proof -
  from r obtain a0 args where a: "argv c = a0 # args"
    by (auto simp: run_command_def split: list.splits if_splits)
  have ext: "external c = (\<not> is_builtin a0)" using a by (simp add: external_def)
  show ?thesis
  proof (cases "a0 = ''fg'' \<or> a0 = ''kill''")
    case True
    then have bi: "is_builtin a0" by (auto simp: is_builtin_def)
    from t a True have ns: "\<not> seen" and tc: "tame seen cs" by auto
    from ns s have jn: "job = None" by simp
    with b have q: "quiet st" by (simp add: building_None)
    from r a True have "job' = job \<and>
        (fg_builtin (argv c) st = Ret () st' \<or> kill_builtin (argv c) st = Ret () st')"
      by (auto simp: run_command_def keep_def split: if_splits outcome.splits)
    then have j': "job' = None" and "quiet st'"
      using jn q by (auto dest: quiet_fg_builtin quiet_kill_builtin)
    then show ?thesis using tc ns bi ext by (simp add: building_None)
  next
    case False
    with t a have tc: "tame (seen \<or> \<not> is_builtin a0) cs" by simp
    show ?thesis
    proof (cases "is_builtin a0")
      case True
      from r a False True consider
          (jobs) "jobs_builtin st = Ret () st'"
        | (bg) "bg_builtin (argv c) st = Ret () st'"
        | (stop) "stop_builtin (argv c) st = Ret () st'"
        | (same) "heap st' = heap st"
        by (auto simp: run_command_def keep_def is_builtin_def
            split: if_splits outcome.splits dest: history_builtin_heap cd_builtin_heap)
      then have b': "building p job st'"
      proof cases
        case jobs
        with b show ?thesis by (auto simp: jobs_builtin_def dest: building_jobs_loop)
      next
        case bg
        with b show ?thesis by (rule building_bg_builtin)
      next
        case stop
        with b show ?thesis by (rule building_stop_builtin)
      next
        case same
        from building_heap[OF same] b show ?thesis by simp
      qed
      from r a False True have "job' = job"
        by (auto simp: run_command_def keep_def is_builtin_def
            split: if_splits outcome.splits)
      with b' tc s True ext show ?thesis by simp
    next
      case nb: False
      with r a have "spawn_command p ans c a0 job pgrp st = Ret (job', pgrp') st'"
        by (auto simp: run_command_def is_builtin_def split: if_splits)
      from building_spawn_command[OF b this] tc nb ext show ?thesis by simp
    qed
  qed
qed

lemma building_run_commands:
  "building p job st \<Longrightarrow> tame seen cs \<Longrightarrow> \<not> seen \<longrightarrow> job = None \<Longrightarrow>
     run_commands p sys i cs job pgrp st = Ret (job', pgrp') st' \<Longrightarrow> building p job' st'"
proof (induction cs arbitrary: p i job pgrp st seen)
  case Nil
  then show ?case by simp
next
  case (Cons c cs)
  let ?p1 = "cd_written (home st) i c p"
  from Cons.prems(4) obtain job1 pgrp1 st1
    where r: "run_command p (sys i) (cs = []) c job pgrp st = Ret (job1, pgrp1) st1"
      and rest: "run_commands ?p1 sys (Suc i) cs job1 pgrp1
                   (cd_written_job (home st) i c job1 st1) = Ret (job', pgrp') st'"
    by (auto split: outcome.splits)
  have bg: "bg_job ?p1 = bg_job p" by simp
  from building_run_command[OF Cons.prems(1) r Cons.prems(2,3)]
  have b1: "building p job1 st1" and t1: "tame (seen \<or> external c) cs"
    and n1: "\<not> (seen \<or> external c) \<longrightarrow> job1 = None" by simp_all
  from building_cd_written_job[OF b1]
  have "building ?p1 job1 (cd_written_job (home st) i c job1 st1)"
    by (simp add: building_bg[OF bg])
  from Cons.IH[OF this t1 n1 rest] show ?case by (simp add: building_bg[OF bg])
qed

lemma quiet_run_pipeline:
  assumes q: "quiet st" and t: "tame False (commands (fst pr))"
    and r: "run_pipeline pr st = Ret u st'"
  shows "quiet st'"
proof -
  let ?p = "fst pr"
  from r obtain job pgrp st1
    where rc: "run_commands ?p (snd pr) 0 (commands ?p) None 0 st = Ret (job, pgrp) st1"
    by (auto simp: run_pipeline_def split: outcome.splits)
  have "building ?p None st" using q by (simp add: building_None)
  from building_run_commands[OF this t _ rc] have b1: "building ?p job st1" by simp
  show ?thesis
  proof (cases job)
    case None
    with r rc b1 show ?thesis by (simp add: run_pipeline_def building_None)
  next
    case (Some a)
    with r rc obtain j where h: "heap st1 a = Some j"
      by (auto simp: run_pipeline_def split: option.splits)
    from b1 Some h have al: "alive j" and bgs: "bg_job ?p \<longrightarrow> status j \<noteq> FOREGROUND"
      and os: "others_settled (Some a) st1"
      unfolding building_def by blast+
    show ?thesis
    proof (cases "bg_job ?p")
      case True
      with r rc Some h
      have e: "st' = emit (Stdout (''['' @ show_int (jid j) @ ''] '' @ show_int (pgid j) @ nl)) st1"
        by (simp add: run_pipeline_def)
      from al bgs True have "settled j" by (simp add: alive_def settled_def)
      with os h have "quiet st1"
        unfolding quiet_def others_settled_def by (metis option.inject)
      with e show ?thesis by (simp add: quiet_def others_settled_def)
    next
      case False
      let ?st2 = "termstate_give_terminal_to (saved_tty_state j) pgrp st1"
      from r rc Some h False obtain st3 where w: "wait_for_job a ?st2 = Ret () st3"
        and d: "\<And>j2. heap st3 a = Some j2 \<Longrightarrow>
              (status j2 = TERMINATED \<and> discard_job a st3 = Ret u st')
              \<or> (status j2 \<noteq> TERMINATED \<and> st' = st3)"
        by (auto simp: run_pipeline_def split: outcome.splits option.splits if_splits)
      from al have "in_wait j" by (simp add: in_wait_def)
      with os h have "waiting (Some a) st1" unfolding waiting_def by auto
      then have w2: "waiting (Some a) ?st2" by simp
      from quiet_after_wait[OF w2 w d] show ?thesis by simp
    qed
  qed
qed

lemma quiet_run_pipelines:
  "quiet st \<Longrightarrow> list_all (\<lambda>pr. tame False (commands (fst pr))) prs \<Longrightarrow>
     run_pipelines prs st = Ret u st' \<Longrightarrow> quiet st'"
proof (induction prs arbitrary: st)
  case Nil
  then show ?case by simp
next
  case (Cons pr prs)
  from Cons.prems(3) obtain st1 where r: "run_pipeline pr st = Ret () st1"
    and rest: "run_pipelines prs st1 = Ret u st'"
    by (auto split: outcome.splits)
  from Cons.prems(2) have t: "tame False (commands (fst pr))"
    and ts: "list_all (\<lambda>pr. tame False (commands (fst pr))) prs" by simp_all
  from Cons.IH[OF quiet_run_pipeline[OF Cons.prems(1) t r] ts rest] show ?case .
qed

lemma quiet_give_back [simp]: "quiet (termstate_give_terminal_back_to_shell st) = quiet st"
  by (simp add: quiet_def others_settled_def)

lemma quiet_shell_iter:
  assumes "quiet st" and "tame_line (line inp)" and "shell_iter inp st = Ret u st'"
  shows "quiet st'"
proof -
  from assms(3) obtain st0 where h: "handlers (sigchlds inp) st = Ret () st0"
    and e0: "eval_line (line inp) (add_history inp st0) = Ret u st'"
    by (auto simp: shell_iter_def split: outcome.splits)
  define st1 where "st1 = add_history inp st0"
  from e0 have e: "eval_line (line inp) st1 = Ret u st'" by (simp add: st1_def)
  from quiet_handlers[OF assms(1) h] have "quiet st0" .
  then have q1: "quiet st1" by (simp add: st1_def quiet_def others_settled_def)
  show ?thesis
  proof (cases "line inp")
    case Parse_error
    with e q1 show ?thesis by (simp add: eval_line_def)
  next
    case (Cmdline prs)
    show ?thesis
    proof (cases "prs = []")
      case True
      with e q1 Cmdline show ?thesis by (simp add: eval_line_def)
    next
      case False
      with e Cmdline obtain st2 where r: "run_pipelines prs st1 = Ret () st2"
        and e2: "st' = termstate_give_terminal_back_to_shell st2"
        by (auto simp: eval_line_def split: outcome.splits)
      from assms(2) Cmdline have "list_all (\<lambda>pr. tame False (commands (fst pr))) prs"
        by (simp add: tame_line_def)
      from quiet_run_pipelines[OF q1 this r] e2 show ?thesis by simp
    qed
  qed
qed

lemma quiet_shell_loop:
  "quiet st \<Longrightarrow> list_all (\<lambda>inp. tame_line (line inp)) inps \<Longrightarrow>
     shell_loop inps st = Ret u st' \<Longrightarrow> quiet st'"
proof (induction inps arbitrary: st)
  case Nil
  then show ?case by (simp split: if_splits)
next
  case (Cons inp inps)
  from Cons.prems(3) obtain st1 where r: "shell_iter inp st = Ret () st1"
    and rest: "shell_loop inps st1 = Ret u st'"
    by (auto split: outcome.splits if_splits)
  from Cons.prems(2) have t: "tame_line (line inp)"
    and ts: "list_all (\<lambda>inp. tame_line (line inp)) inps" by simp_all
  from Cons.IH[OF quiet_shell_iter[OF Cons.prems(1) t r] ts rest] show ?case .
qed

lemma quiet_initial: "quiet (initial pg owner t script)"
  by (simp add: quiet_def others_settled_def initial_def)

lemma quiet_fg_invariant: "quiet st \<Longrightarrow> fg_invariant st"
  by (auto simp: quiet_def others_settled_def fg_invariant_def settled_def)



lemma tame_lines_no_foreground_job:
  assumes "list_all (\<lambda>inp. tame_line (line inp)) inps"
    and "shell_loop inps (initial pg owner t script) = Ret u st'"
  shows "fg_invariant st' \<and> (\<forall>a j. heap st' a = Some j \<longrightarrow> status j \<noteq> FOREGROUND)"
proof -
  from quiet_shell_loop[OF quiet_initial assms] have q: "quiet st'" .
  then have "fg_invariant st'" by (rule quiet_fg_invariant)
  moreover from q have "\<forall>a j. heap st' a = Some j \<longrightarrow> status j \<noteq> FOREGROUND"
    by (auto simp: quiet_def others_settled_def settled_def)
  ultimately show ?thesis by simp
qed


text \<open>
  Claim C3.  The source says of the status \<open>FOREGROUND\<close> that only one job can be in it,
  and whenever the shell reads a line it owns the terminal itself.  The code breaks both
  parts of the claim.  After \<open>sleep 5 &\<close>, the line \<open>true | kill 1 | fg 2\<close> creates job 2,
  whose only process is reaped while \<open>kill\<close> waits for job 1; \<open>fg 2\<close> then marks job 2
  \<open>FOREGROUND\<close> again, and since only a job marked \<open>TERMINATED\<close> is deleted after a wait, the
  job stays in the list.  Doing the same once more leaves two jobs marked \<open>FOREGROUND\<close>,
  neither with a live process, while the shell is back at the prompt and owns the terminal.
\<close>

theorem two_foreground_jobs:
  "shell_loop [bg_sleep, zombie_line, bg_sleep_again, zombie_line_again]
     (initial 1 1 0 [(200, WExited 0), (100, WSignaled 9), (400, WExited 0), (300, WSignaled 9)])
     = Ret () two_zombies
   \<and> job_list two_zombies = [1, 3]
   \<and> map_option status (heap two_zombies 1) = Some FOREGROUND
   \<and> map_option status (heap two_zombies 3) = Some FOREGROUND
   \<and> map_option num_processes_alive (heap two_zombies 1) = Some 0
   \<and> map_option num_processes_alive (heap two_zombies 3) = Some 0
   \<and> map_option pgid (heap two_zombies 1) = Some 200
   \<and> map_option pgid (heap two_zombies 3) = Some 400
   \<and> term_owner two_zombies = 1 \<and> shell_pgrp two_zombies = 1"
proof (intro conjI)
  show "shell_loop [bg_sleep, zombie_line, bg_sleep_again, zombie_line_again]
     (initial 1 1 0 [(200, WExited 0), (100, WSignaled 9), (400, WExited 0), (300, WSignaled 9)])
     = Ret () two_zombies"
    by (simp add: run_defs bg_sleep_def zombie_line_def bg_sleep_again_def zombie_line_again_def
      first_free_empty first_free_after_one first_free_after_two first_free_after_three
      atoi_1 atoi_2 atoi_3 show_int_1 show_int_100 show_int_300 reaper_defs
      two_zombies_def zombie_job_def numeral_3_eq_3)
qed (simp_all add: two_zombies_def zombie_job_def)

lemma two_zombies_break_invariant: "\<not> fg_invariant two_zombies"
proof -
  have "1 \<in> set (job_list two_zombies) \<and> 3 \<in> set (job_list two_zombies)
      \<and> heap two_zombies 1 = Some (zombie_job ''2'' 2 200)
      \<and> heap two_zombies 3 = Some (zombie_job ''3'' 3 400)
      \<and> status (zombie_job ''2'' 2 200) = FOREGROUND
      \<and> status (zombie_job ''3'' 3 400) = FOREGROUND \<and> (1::nat) \<noteq> 3"
    by (simp add: two_zombies_def zombie_job_def)
  then show ?thesis
    unfolding fg_invariant_def by blast
qed


end
